theory Spec2Isabelle
  imports Main "HOL-Library.Sublist" "HOL-Library.AList"
begin

section \<open>Strings\<close>

text \<open>
  The packaging script \<^verbatim>\<open>makedist.py\<close> works on Python strings. They are modelled as
  \<^typ>\<open>string\<close>. \<open>str_in sub s\<close> is Python's \<^verbatim>\<open>sub in s\<close>, \<open>prefix p s\<close> (from the
  library) is \<^verbatim>\<open>s.startswith(p)\<close>, and \<open>str_replace old new s\<close> is
  \<^verbatim>\<open>s.replace(old, new)\<close> for a non-empty \<open>old\<close>: every non-overlapping occurrence,
  scanning from the left.
\<close>

fun str_in :: "string \<Rightarrow> string \<Rightarrow> bool" where
  "str_in sub [] = (sub = [])"
| "str_in sub (c # s) = (prefix sub (c # s) \<or> str_in sub s)"

function str_replace :: "string \<Rightarrow> string \<Rightarrow> string \<Rightarrow> string" where
  "str_replace old new [] = []"
| "str_replace old new (c # s) =
     (if old \<noteq> [] \<and> prefix old (c # s)
      then new @ str_replace old new (drop (length old) (c # s))
      else c # str_replace old new s)"
  by pat_completeness auto
termination
  by (relation "measure (\<lambda>(old, new, s). length s)") (auto simp: neq_Nil_conv)

text \<open>\<^verbatim>\<open>s.split(sep)\<close> for a one-character separator.\<close>

fun split_sep :: "char \<Rightarrow> string \<Rightarrow> string list" where
  "split_sep sep [] = [[]]"
| "split_sep sep (c # s) =
     (if c = sep then [] # split_sep sep s
      else (case split_sep sep s of [] \<Rightarrow> [[c]] | h # t \<Rightarrow> (c # h) # t))"

definition rstrip :: "char \<Rightarrow> string \<Rightarrow> string" where
  "rstrip c s = rev (dropWhile (\<lambda>x. x = c) (rev s))"

section \<open>Paths\<close>

text \<open>
  \<open>path_split\<close> is \<^verbatim>\<open>os.path.split\<close> of \<^verbatim>\<open>posixpath\<close>: the tail is what follows the
  last slash, the head is the rest with its trailing slashes stripped unless it consists
  of slashes only. \<open>path_join\<close> is \<^verbatim>\<open>os.path.join\<close> with two arguments.
\<close>

definition path_split :: "string \<Rightarrow> string \<times> string" where
  "path_split p =
     (let tail = rev (takeWhile (\<lambda>c. c \<noteq> CHR ''/'') (rev p));
          head = take (length p - length tail) p
      in (if head \<noteq> [] \<and> \<not> list_all (\<lambda>c. c = CHR ''/'') head
          then rstrip CHR ''/'' head else head,
          tail))"

definition path_join :: "string \<Rightarrow> string \<Rightarrow> string" where
  "path_join a b =
     (if prefix ''/'' b then b
      else if a = [] \<or> last a = CHR ''/'' then a @ b
      else a @ ''/'' @ b)"

text \<open>
  The file system is the tree below the working directory. A location in it is the list
  of the names on the way down; \<open>path_of\<close> resolves a relative path string, dropping empty
  components and \<^verbatim>\<open>.\<close>. The script only uses relative paths. Symbolic links and
  \<^verbatim>\<open>..\<close> are outside the model.
\<close>

type_synonym path = "string list"

definition path_of :: "string \<Rightarrow> path" where
  "path_of s = filter (\<lambda>c. c \<noteq> [] \<and> c \<noteq> ''.'') (split_sep CHR ''/'' s)"

section \<open>The file system\<close>

datatype node = File string | Dir

type_synonym fs = "(path \<times> node) list"

text \<open>
  The exceptions the script can raise. \<open>Exception msg\<close> is the script's own
  \<^verbatim>\<open>raise Exception(msg)\<close>; the others are raised by the Python library.
\<close>

datatype error =
    Exception string
  | FileNotFoundError
  | NotADirectoryError
  | IsADirectoryError
  | FileExistsError
  | SameFileError
  | JSONDecodeError
  | KeyError string
  | TypeError

definition lookup :: "fs \<Rightarrow> path \<Rightarrow> node option" where
  "lookup t p = (if p = [] then Some Dir else map_of t p)"

definition isdir :: "fs \<Rightarrow> path \<Rightarrow> bool" where
  "isdir t p = (lookup t p = Some Dir)"

text \<open>\<^verbatim>\<open>os.path.isdir\<close> of a path string; the empty string names nothing.\<close>

definition isdir_path :: "fs \<Rightarrow> string \<Rightarrow> bool" where
  "isdir_path t s = (s \<noteq> [] \<and> isdir t (path_of s))"

text \<open>
  The error for a location that does not exist: \<^verbatim>\<open>ENOTDIR\<close> when a regular file stands
  on the way to it, \<^verbatim>\<open>ENOENT\<close> otherwise.
\<close>

definition file_above :: "fs \<Rightarrow> path \<Rightarrow> bool" where
  "file_above t p =
     list_ex (\<lambda>q. case lookup t q of Some (File _) \<Rightarrow> True | _ \<Rightarrow> False) (butlast (prefixes p))"

definition enoent :: "fs \<Rightarrow> path \<Rightarrow> error" where
  "enoent t p = (if file_above t p then NotADirectoryError else FileNotFoundError)"

text \<open>
  \<^verbatim>\<open>shutil.copyfile(src, dst)\<close>: refuses to copy a file onto itself, opens the source
  for reading, then the destination for writing (created or truncated), and copies the
  bytes. A failed call leaves the tree as it was.
\<close>

definition copyfile :: "path \<Rightarrow> path \<Rightarrow> fs \<Rightarrow> error option \<times> fs" where
  "copyfile src dst t =
     (if src = dst \<and> lookup t src \<noteq> None then (Some SameFileError, t)
      else case lookup t src of
          None \<Rightarrow> (Some (enoent t src), t)
        | Some Dir \<Rightarrow> (Some IsADirectoryError, t)
        | Some (File content) \<Rightarrow>
           (case lookup t dst of
              Some Dir \<Rightarrow> (Some IsADirectoryError, t)
            | Some (File _) \<Rightarrow> (None, AList.update dst (File content) t)
            | None \<Rightarrow>
               (case lookup t (butlast dst) of
                  Some Dir \<Rightarrow> (None, AList.update dst (File content) t)
                | Some (File _) \<Rightarrow> (Some NotADirectoryError, t)
                | None \<Rightarrow> (Some (enoent t (butlast dst)), t))))"

text \<open>\<^verbatim>\<open>os.unlink(p)\<close>: removes a regular file, raises when there is none.\<close>

definition unlink :: "path \<Rightarrow> fs \<Rightarrow> error option \<times> fs" where
  "unlink p t =
     (case lookup t p of
        None \<Rightarrow> (Some (enoent t p), t)
      | Some Dir \<Rightarrow> (Some IsADirectoryError, t)
      | Some (File _) \<Rightarrow> (None, AList.delete p t))"

text \<open>\<^verbatim>\<open>os.mkdir(p)\<close>.\<close>

definition mkdir :: "path \<Rightarrow> fs \<Rightarrow> error option \<times> fs" where
  "mkdir p t =
     (case lookup t p of
        Some _ \<Rightarrow> (Some FileExistsError, t)
      | None \<Rightarrow>
         (case lookup t (butlast p) of
            Some Dir \<Rightarrow> (None, AList.update p Dir t)
          | Some (File _) \<Rightarrow> (Some NotADirectoryError, t)
          | None \<Rightarrow> (Some (enoent t (butlast p)), t)))"

text \<open>
  \<^verbatim>\<open>os.makedirs(p, exist_ok=True)\<close>: creates the missing parent first, then the
  directory itself, and forgives a failure of the last \<^verbatim>\<open>mkdir\<close> when the directory is
  there. (The library also swallows a \<^verbatim>\<open>FileExistsError\<close> of the recursive call, which
  guards against another process creating the parent in between; in a sequential run the
  parent does not exist when the call is made, so that error cannot come out of it.)
\<close>

function makedirs :: "path \<Rightarrow> fs \<Rightarrow> error option \<times> fs" where
  "makedirs p t =
     (if p = [] then (None, t)
      else case (if butlast p \<noteq> [] \<and> lookup t (butlast p) = None
                 then makedirs (butlast p) t
                 else (None, t)) of
          (Some e, t') \<Rightarrow> (Some e, t')
        | (None, t') \<Rightarrow>
           (case mkdir p t' of
              (Some e, t'') \<Rightarrow> (if isdir t'' p then (None, t'') else (Some e, t''))
            | (None, t'') \<Rightarrow> (None, t'')))"
  by pat_completeness auto
termination
  by (relation "measure (\<lambda>(p, t). length p)") auto

text \<open>
  \<^verbatim>\<open>os.listdir(p)\<close>: the names of the entries directly below \<open>p\<close>, in the order the
  tree holds them.
\<close>

definition listdir :: "fs \<Rightarrow> path \<Rightarrow> string list" where
  "listdir t p =
     remdups (map (\<lambda>e. last (fst e)) (filter (\<lambda>e. fst e \<noteq> [] \<and> butlast (fst e) = p) t))"

section \<open>Effects\<close>

text \<open>
  What a run can change: the tree on disk, the shell commands it has handed to
  \<^verbatim>\<open>subprocess.call\<close> (in order), and the lines it has printed. What the external tools
  (the bundler behind \<^verbatim>\<open>npm run\<close>, \<^verbatim>\<open>zip\<close>, \<^verbatim>\<open>appdmg\<close>, \<^verbatim>\<open>rm\<close>) do to the disk is a
  parameter \<open>sh\<close> of the model; \<^verbatim>\<open>subprocess.call\<close> returns their exit status, which the
  script never looks at.
\<close>

record world =
  disk :: fs
  calls :: "string list"
  out :: "string list"

text \<open>
  A statement takes the state and returns the exception it raised, if any, with the
  state at that point. \<open>seq\<close> runs statements in order and \<open>for_each\<close> is a \<^verbatim>\<open>for\<close> loop;
  both stop at the first exception.
\<close>

fun seq :: "('s \<Rightarrow> error option \<times> 's) list \<Rightarrow> 's \<Rightarrow> error option \<times> 's" where
  "seq [] s = (None, s)"
| "seq (stmt # stmts) s =
     (case stmt s of (None, s') \<Rightarrow> seq stmts s' | (Some e, s') \<Rightarrow> (Some e, s'))"

fun for_each :: "('a \<Rightarrow> 's \<Rightarrow> error option \<times> 's) \<Rightarrow> 'a list \<Rightarrow> 's \<Rightarrow> error option \<times> 's" where
  "for_each body [] s = (None, s)"
| "for_each body (x # xs) s =
     (case body x s of (None, s') \<Rightarrow> for_each body xs s' | (Some e, s') \<Rightarrow> (Some e, s'))"

definition on_disk :: "(fs \<Rightarrow> error option \<times> fs) \<Rightarrow> world \<Rightarrow> error option \<times> world" where
  "on_disk f w = (case f (disk w) of (e, t) \<Rightarrow> (e, w\<lparr>disk := t\<rparr>))"

definition py_print :: "string \<Rightarrow> world \<Rightarrow> error option \<times> world" where
  "py_print line w = (None, w\<lparr>out := out w @ [line]\<rparr>)"

definition subprocess_call :: "(string \<Rightarrow> fs \<Rightarrow> fs) \<Rightarrow> string \<Rightarrow> world \<Rightarrow> error option \<times> world" where
  "subprocess_call sh cmd w = (None, w\<lparr>calls := calls w @ [cmd], disk := sh cmd (disk w)\<rparr>)"

section \<open>The script's tables\<close>

definition all_packages :: "string list" where
  "all_packages = [''darwin-x64'', ''linux-ia32'', ''linux-x64'', ''win32-ia32'', ''win32-x64'']"

definition files :: "string list" where
  "files =
    [''./package.json'', ''./main.js'', ''./apphooks.js'', ''./play.html'', ''./prefs.html'',
     ''./prefs.js'', ''./about.html'', ''./if-card.html'', ''./fonts.css'', ''./el-glkote.css'',
     ''./icon-128.png'', ''./docicon.ico'', ''./quixe/lib/elkote.min.js'',
     ''./quixe/lib/jquery-1.11.2.min.js'', ''./quixe/lib/quixe.min.js'',
     ''./quixe/media/waiting.gif'', ''./font'']"

definition rootfiles :: "string list" where
  "rootfiles = [''./LICENSE'', ''./LICENSES-FONTS.txt'']"

section \<open>install: the file stager\<close>

text \<open>
  One round of the loop over \<open>files\<close>: a plain file is copied to the same relative path
  below \<open>appdir\<close>; for a directory the same-named directory is made below \<open>appdir\<close> and
  every entry that \<^verbatim>\<open>os.listdir\<close> returns is copied with \<^verbatim>\<open>copyfile\<close> (one level only).
  The path of an entry is the directory's path followed by the entry's name.
\<close>

definition install_entry :: "string \<Rightarrow> string \<Rightarrow> fs \<Rightarrow> error option \<times> fs" where
  "install_entry appdir filename t =
     (if \<not> isdir_path t filename
      then copyfile (path_of filename) (path_of (path_join appdir filename)) t
      else let subdirname = path_join appdir filename in
        seq [makedirs (path_of subdirname),
             (\<lambda>t'. for_each
                (\<lambda>subfile. copyfile (path_of filename @ [subfile]) (path_of subdirname @ [subfile]))
                (listdir t' (path_of filename)) t')] t)"

definition install :: "string \<Rightarrow> world \<Rightarrow> error option \<times> world" where
  "install resourcedir w =
     (if \<not> isdir_path (disk w) resourcedir
      then (Some (Exception (''path does not exist: '' @ resourcedir)), w)
      else let appdir = resourcedir; qdir = path_join appdir ''quixe'' in
        seq [py_print (''Installing to: '' @ appdir),
             on_disk (makedirs (path_of appdir)),
             on_disk (makedirs (path_of qdir)),
             on_disk (makedirs (path_of (path_join qdir ''lib''))),
             on_disk (makedirs (path_of (path_join qdir ''media''))),
             on_disk (for_each (install_entry appdir) files)] w)"

section \<open>builddir: the bundle builder\<close>

definition builddir :: "(string \<Rightarrow> fs \<Rightarrow> fs) \<Rightarrow> string \<Rightarrow> string \<Rightarrow> world \<Rightarrow> error option \<times> world" where
  "builddir sh dir pack =
     seq [subprocess_call sh (''npm run package-'' @ pack),
          on_disk (for_each
            (\<lambda>filename. copyfile (path_of filename) (path_of (path_join dir filename)))
            rootfiles),
          on_disk (unlink (path_of (path_join dir ''version'')))]"

text \<open>
  The statements of \<^verbatim>\<open>builddir\<close> that come before the final \<^verbatim>\<open>os.unlink\<close>: the bundler
  and the loop over \<open>rootfiles\<close>.
\<close>

definition builddir_overlay ::
  "(string \<Rightarrow> fs \<Rightarrow> fs) \<Rightarrow> string \<Rightarrow> string \<Rightarrow> world \<Rightarrow> error option \<times> world" where
  "builddir_overlay sh dir pack =
     seq [subprocess_call sh (''npm run package-'' @ pack),
          on_disk (for_each
            (\<lambda>filename. copyfile (path_of filename) (path_of (path_join dir filename)))
            rootfiles)]"

section \<open>makezip: the archiver\<close>

text \<open>
  The product name and the version are whatever \<^verbatim>\<open>package.json\<close> holds under the two
  keys: a JSON string, or some other JSON value, kept with the text \<^verbatim>\<open>str()\<close> gives
  for it. Concatenating a value that is not a string raises \<^verbatim>\<open>TypeError\<close>.
\<close>

datatype jval = JStr string | JOther string

fun py_str :: "jval \<Rightarrow> string" where
  "py_str (JStr s) = s"
| "py_str (JOther s) = s"

text \<open>
  The value of the script's variable \<^verbatim>\<open>zipfile\<close> as first assigned: name, version and
  what follows the prefix in the directory's base name \<open>val\<close>.
\<close>

definition zipfile_raw :: "string \<Rightarrow> string \<Rightarrow> string \<Rightarrow> string" where
  "zipfile_raw name version val = name @ ''-'' @ version @ ''-'' @ drop (length (name @ ''-'')) val"

text \<open>The two shell command lines of \<^verbatim>\<open>makezip\<close>, as its format strings build them.\<close>

definition dmg_command :: "string \<Rightarrow> string" where
  "dmg_command zipfile =
     ''rm -f dist/'' @ zipfile
       @ ''.dmg; node_modules/.bin/appdmg resources/pack-dmg-spec.json dist/'' @ zipfile @ ''.dmg''"

definition zip_command :: "string \<Rightarrow> string \<Rightarrow> bool \<Rightarrow> string" where
  "zip_command dir zipfile unwrapped =
     (let zipargs = ''-q'' in
      if unwrapped
      then ''cd '' @ dir @ ''; rm -f ../'' @ zipfile @ ''.zip; zip '' @ zipargs
             @ '' -r ../'' @ zipfile @ ''.zip *''
      else (let subdir = snd (path_split dir); topdir = fst (path_split dir) in
            ''cd '' @ topdir @ ''; rm -f '' @ zipfile @ ''.zip; zip '' @ zipargs
              @ '' -r '' @ zipfile @ ''.zip '' @ subdir))"

definition makezip ::
  "(string \<Rightarrow> fs \<Rightarrow> fs) \<Rightarrow> jval \<Rightarrow> jval \<Rightarrow> string \<Rightarrow> bool \<Rightarrow> world \<Rightarrow> error option \<times> world" where
  "makezip sh product_name product_version dir unwrapped w =
     (case product_name of
        JOther _ \<Rightarrow> (Some TypeError, w)
      | JStr name \<Rightarrow>
         (let pre = name @ ''-''; val = snd (path_split dir) in
          if \<not> prefix pre val then (Some (Exception ''path does not have the prefix''), w)
          else (case product_version of
             JOther _ \<Rightarrow> (Some TypeError, w)
           | JStr version \<Rightarrow>
              (let zipfile = zipfile_raw name version val in
               if str_in ''darwin'' zipfile
               then (let zipfile = str_replace ''darwin'' ''macos'' zipfile in
                     seq [py_print (''AppDMGing up: '' @ dir @ '' to '' @ zipfile),
                          subprocess_call sh (dmg_command zipfile)] w)
               else seq [py_print (''Zipping up: '' @ dir @ '' to '' @ zipfile @ '' (''
                                   @ (if unwrapped then ''unwrapped'' else ''wrapped'') @ '')''),
                         subprocess_call sh (zip_command dir zipfile unwrapped)] w))))"

text \<open>
  The command line \<^verbatim>\<open>makezip\<close> hands to the shell when it gets that far: it is built from
  the archive name, which decides between the disk-image tool and \<^verbatim>\<open>zip\<close>.
\<close>

definition archive_command :: "string \<Rightarrow> string \<Rightarrow> string \<Rightarrow> bool \<Rightarrow> string" where
  "archive_command name version dir unwrapped =
     (let zipfile = zipfile_raw name version (snd (path_split dir)) in
      if str_in ''darwin'' zipfile
      then dmg_command (str_replace ''darwin'' ''macos'' zipfile)
      else zip_command dir zipfile unwrapped)"

section \<open>The run\<close>

text \<open>
  The three \<^verbatim>\<open>store_true\<close> options (\<^verbatim>\<open>--build\<close>, \<^verbatim>\<open>--zip\<close>, \<^verbatim>\<open>--none\<close>); an option that
  was not given is \<^verbatim>\<open>None\<close>, which counts as false.
\<close>

record opts =
  opt_makedist :: bool
  opt_makezip :: bool
  opt_makenothing :: bool

text \<open>
  \<^verbatim>\<open>json.load\<close> is a parameter: it maps the text of \<^verbatim>\<open>package.json\<close> to the document, or
  to nothing when the text is not JSON. A document is an object (a dictionary from keys
  to values) or something else, which cannot be subscripted with a string.
\<close>

datatype json_doc = JObject "string \<Rightarrow> jval option" | JNonObject

definition read_manifest :: "(string \<Rightarrow> json_doc option) \<Rightarrow> fs \<Rightarrow> error + jval \<times> jval" where
  "read_manifest json_load t =
     (case lookup t (path_of ''package.json'') of
        None \<Rightarrow> Inl (enoent t (path_of ''package.json''))
      | Some Dir \<Rightarrow> Inl IsADirectoryError
      | Some (File content) \<Rightarrow>
         (case json_load content of
            None \<Rightarrow> Inl JSONDecodeError
          | Some JNonObject \<Rightarrow> Inl TypeError
          | Some (JObject pkg) \<Rightarrow>
             (case pkg ''version'' of
                None \<Rightarrow> Inl (KeyError ''version'')
              | Some product_version \<Rightarrow>
                 (case pkg ''productName'' of
                    None \<Rightarrow> Inl (KeyError ''productName'')
                  | Some product_name \<Rightarrow> Inr (product_version, product_name)))))"

text \<open>The inner loop of the selection: does some argument occur in the package name.\<close>

fun matches :: "string list \<Rightarrow> string \<Rightarrow> bool" where
  "matches [] pack = False"
| "matches (arg # args) pack = (if str_in arg pack then True else matches args pack)"

fun select_loop :: "string list \<Rightarrow> string list \<Rightarrow> string list \<Rightarrow> string list" where
  "select_loop [] args packages = packages"
| "select_loop (pack # rest) args packages =
     select_loop rest args (if matches args pack then packages @ [pack] else packages)"

definition select_packages :: "string list \<Rightarrow> string list" where
  "select_packages args = (if args = [] then all_packages else select_loop all_packages args [])"

definition doall :: "opts \<Rightarrow> bool" where
  "doall op = (\<not> (opt_makedist op \<or> opt_makezip op \<or> opt_makenothing op))"

text \<open>The two gates of the run: \<^verbatim>\<open>if doall or opts.makedist\<close> and \<^verbatim>\<open>if doall or opts.makezip\<close>.\<close>

definition build_wanted :: "opts \<Rightarrow> bool" where
  "build_wanted op = (doall op \<or> opt_makedist op)"

definition zip_wanted :: "opts \<Rightarrow> bool" where
  "zip_wanted op = (doall op \<or> opt_makezip op)"

definition dest_of :: "jval \<Rightarrow> string \<Rightarrow> string" where
  "dest_of product_name pack = ''dist/'' @ py_str product_name @ ''-'' @ pack"

definition build_phase :: "(string \<Rightarrow> fs \<Rightarrow> fs) \<Rightarrow> jval \<Rightarrow> string list \<Rightarrow> world \<Rightarrow> error option \<times> world" where
  "build_phase sh product_name packages =
     for_each (\<lambda>pack. builddir sh (dest_of product_name pack) pack) packages"

definition zip_phase ::
  "(string \<Rightarrow> fs \<Rightarrow> fs) \<Rightarrow> jval \<Rightarrow> jval \<Rightarrow> string list \<Rightarrow> world \<Rightarrow> error option \<times> world" where
  "zip_phase sh product_name product_version packages =
     for_each
       (\<lambda>pack. makezip sh product_name product_version (dest_of product_name pack)
                 (str_in ''win32'' pack))
       packages"

definition run ::
  "(string \<Rightarrow> fs \<Rightarrow> fs) \<Rightarrow> (string \<Rightarrow> json_doc option) \<Rightarrow> opts \<Rightarrow> string list \<Rightarrow> world
     \<Rightarrow> error option \<times> world" where
  "run sh json_load op args w =
     (case read_manifest json_load (disk w) of
        Inl e \<Rightarrow> (Some e, w)
      | Inr (product_version, product_name) \<Rightarrow>
         seq [py_print (py_str product_name @ '' version: '' @ py_str product_version),
              (\<lambda>w1. let packages = select_packages args in
                 if packages = [] then (Some (Exception ''no packages selected''), w1)
                 else
                   seq [on_disk (makedirs (path_of ''tempapp'')),
                        install ''tempapp'',
                        on_disk (makedirs (path_of ''dist'')),
                        (\<lambda>w2. if build_wanted op
                               then build_phase sh product_name packages w2 else (None, w2)),
                        (\<lambda>w3. if zip_wanted op
                               then zip_phase sh product_name product_version packages w3
                               else (None, w3))] w1)] w)"

section \<open>Notions for reasoning about the file stager\<close>

text \<open>
  \<open>chg M D t t'\<close>: the tree \<open>t'\<close> differs from \<open>t\<close> at most by directories made at
  locations of \<open>M\<close> where nothing was, and by regular files written at locations of \<open>D\<close>
  that were not directories. Nothing is removed and no directory is replaced.
\<close>

definition chg :: "path set \<Rightarrow> path set \<Rightarrow> fs \<Rightarrow> fs \<Rightarrow> bool" where
  "chg M D t t' =
     (\<forall>p. lookup t' p = lookup t p
        \<or> (p \<in> M \<and> lookup t p = None \<and> lookup t' p = Some Dir)
        \<or> (p \<in> D \<and> lookup t p \<noteq> Some Dir \<and> (\<exists>y. lookup t' p = Some (File y))))"

text \<open>The parent of \<open>p\<close> is the working directory or exists.\<close>

definition par_ok :: "fs \<Rightarrow> path \<Rightarrow> bool" where
  "par_ok t p = (butlast p = [] \<or> lookup t (butlast p) \<noteq> None)"

text \<open>
  \<^verbatim>\<open>install_entry\<close> on resolved locations: \<open>r\<close> is the destination root and \<open>e\<close> the
  manifest entry.
\<close>

definition entry_copy :: "path \<Rightarrow> path \<Rightarrow> fs \<Rightarrow> error option \<times> fs" where
  "entry_copy r e t =
     (if \<not> isdir t e then copyfile e (r @ e) t
      else seq [makedirs (r @ e),
                (\<lambda>t'. for_each (\<lambda>c. copyfile (e @ [c]) (r @ e @ [c])) (listdir t' e) t')] t)"

text \<open>The locations one round of the loop may write a file to.\<close>

definition dst :: "path \<Rightarrow> path \<Rightarrow> path set" where
  "dst r e = {p. p = r @ e \<or> (\<exists>c. p = r @ e @ [c])}"

text \<open>
  A source and its destination are in step: different locations, both regular files with
  the same bytes.
\<close>

definition synced :: "fs \<Rightarrow> path \<Rightarrow> path \<Rightarrow> bool" where
  "synced F s d = (s \<noteq> d \<and> (\<exists>x. lookup F s = Some (File x) \<and> lookup F d = Some (File x)))"

text \<open>
  A manifest entry is staged in the tree \<open>F\<close>: a plain file is in step with its copy; for
  a directory the copy of the directory exists and every entry of the directory is in step
  with its copy.
\<close>

definition good :: "fs \<Rightarrow> path \<Rightarrow> path \<Rightarrow> bool" where
  "good F r e =
     (if isdir F e
      then isdir F (r @ e) \<and> par_ok F (r @ e)
           \<and> (\<forall>c \<in> set (listdir F e). synced F (e @ [c]) (r @ e @ [c]))
      else synced F e (r @ e))"

text \<open>The same for a list of entries, with the locations where directories may be made.\<close>

definition dsts :: "path \<Rightarrow> path list \<Rightarrow> path set" where
  "dsts r es = (\<Union>e \<in> set es. dst r e)"

definition mks :: "path \<Rightarrow> path list \<Rightarrow> path set" where
  "mks r es = (\<Union>e \<in> set es. set (prefixes (r @ e)))"

text \<open>No entry of the list is a proper prefix of another.\<close>

definition pfree :: "path list \<Rightarrow> bool" where
  "pfree es = (\<forall>e \<in> set es. \<forall>e' \<in> set es. prefix e e' \<longrightarrow> e = e')"

text \<open>The statements of \<^verbatim>\<open>install\<close> that act on the disk, as one step on the tree.\<close>

definition install_disk :: "string \<Rightarrow> fs \<Rightarrow> error option \<times> fs" where
  "install_disk appdir =
     seq [makedirs (path_of appdir),
          makedirs (path_of (path_join appdir ''quixe'')),
          makedirs (path_of (path_join (path_join appdir ''quixe'') ''lib'')),
          makedirs (path_of (path_join (path_join appdir ''quixe'') ''media'')),
          for_each (install_entry appdir) files]"

section \<open>A concrete working directory\<close>

text \<open>
  A small source tree, a bundler that leaves a directory with a \<^verbatim>\<open>version\<close> file below
  \<^verbatim>\<open>dist\<close> for the platform it is asked for, and a JSON reader that knows the one
  manifest of the tree. The properties below are instantiated on them.
\<close>

definition example_disk :: fs where
  "example_disk =
    [([''package.json''], File ''{}''),
     ([''main.js''], File ''main''),
     ([''apphooks.js''], File ''hooks''),
     ([''play.html''], File ''play''),
     ([''prefs.html''], File ''prefs''),
     ([''prefs.js''], File ''prefsjs''),
     ([''about.html''], File ''about''),
     ([''if-card.html''], File ''card''),
     ([''fonts.css''], File ''fonts''),
     ([''el-glkote.css''], File ''glkote''),
     ([''icon-128.png''], File ''icon''),
     ([''docicon.ico''], File ''docicon''),
     ([''quixe''], Dir),
     ([''quixe'', ''lib''], Dir),
     ([''quixe'', ''lib'', ''elkote.min.js''], File ''elkote''),
     ([''quixe'', ''lib'', ''jquery-1.11.2.min.js''], File ''jquery''),
     ([''quixe'', ''lib'', ''quixe.min.js''], File ''quixe''),
     ([''quixe'', ''media''], Dir),
     ([''quixe'', ''media'', ''waiting.gif''], File ''gif''),
     ([''font''], Dir),
     ([''font'', ''a.ttf''], File ''ttf-a''),
     ([''font'', ''b.ttf''], File ''ttf-b''),
     ([''LICENSE''], File ''license''),
     ([''LICENSES-FONTS.txt''], File ''font licenses'')]"

definition example_sh :: "string \<Rightarrow> fs \<Rightarrow> fs" where
  "example_sh cmd t =
     (if prefix ''npm run package-'' cmd
      then (let d = [''dist'', ''App-'' @ drop (length ''npm run package-'') cmd]
            in AList.update (d @ [''version'']) (File ''1.3.0'') (AList.update d Dir t))
      else t)"

definition example_json_load :: "string \<Rightarrow> json_doc option" where
  "example_json_load text =
     (if text = ''{}''
      then Some (JObject [''version'' \<mapsto> JStr ''1.0'', ''productName'' \<mapsto> JStr ''App''])
      else None)"

definition example_world :: world where
  "example_world = \<lparr>disk = example_disk, calls = [], out = []\<rparr>"

text \<open>The example tree after a bundler that made the output directory and nothing else.\<close>

definition example_world_no_version :: world where
  "example_world_no_version =
     \<lparr>disk = example_disk @ [([''dist''], Dir), ([''dist'', ''App-linux-x64''], Dir)],
      calls = [], out = []\<rparr>"

text \<open>A bundler that makes the output directory and leaves no \<^verbatim>\<open>version\<close> file in it.\<close>

definition example_sh_no_version :: "string \<Rightarrow> fs \<Rightarrow> fs" where
  "example_sh_no_version cmd t =
     (if prefix ''npm run package-'' cmd
      then AList.update [''dist'', ''App-'' @ drop (length ''npm run package-'') cmd] Dir t
      else t)"

text \<open>The example tree with the staging directory made, as the run does before staging.\<close>

definition example_world_tempapp :: world where
  "example_world_tempapp = \<lparr>disk = example_disk @ [([''tempapp''], Dir)], calls = [], out = []\<rparr>"

section \<open>Substrings and the platform selection\<close>

lemma str_in_sublist: "str_in sub s = sublist sub s"
  by (induction s) (auto simp: sublist_Cons_right)

lemma matches_iff: "matches args pack = (\<exists>a \<in> set args. str_in a pack)"
  by (induction args) auto

lemma select_loop_filter: "select_loop packs args acc = acc @ filter (matches args) packs"
  by (induction packs arbitrary: acc) auto

lemma distinct_all_packages: "distinct all_packages"
  by (simp add: all_packages_def)

lemma select_packages_filter:
  "select_packages args = (if args = [] then all_packages else filter (matches args) all_packages)"
  by (simp add: select_packages_def select_loop_filter)

text \<open>
  Claim C3, as the code has it. For every sequence of filter strings the selection is a
  subsequence of the fixed list of five platforms (the order is kept), no platform occurs
  twice, and with no filter it is the whole list. The whole list also comes out of a
  non-empty sequence of filters, namely when every platform contains one of them:
  the selection is the whole list exactly when there is no filter or every platform
  matches.
\<close>

theorem select_packages_subseq_distinct:
  "subseq (select_packages args) all_packages
   \<and> distinct (select_packages args)
   \<and> select_packages [] = all_packages
   \<and> (select_packages args = all_packages)
       = (args = [] \<or> list_all (matches args) all_packages)"
  by (auto simp: select_packages_filter distinct_all_packages filter_id_conv list_all_iff)

text \<open>
  Claim C3 as stated fails: the single filter \<^verbatim>\<open>-\<close> occurs in all five platform names,
  so a non-empty filter sequence selects the whole list.
\<close>

theorem select_packages_all_nonempty_filter:
  "\<not> (select_packages [''-''] = all_packages \<longleftrightarrow> [''-''] = [])"
  by (simp add: select_packages_def all_packages_def)

section \<open>The archiver\<close>

text \<open>
  Claim C1. With product name \<^verbatim>\<open>Foo\<close> and version \<^verbatim>\<open>2.1\<close>, the archive loop of the run
  (lines 157-160, which pass \<^verbatim>\<open>unwrapped\<close> as \<^verbatim>\<open>'win32' in pack\<close>) on the platform
  \<^verbatim>\<open>darwin-x64\<close> computes the archive name \<^verbatim>\<open>Foo-2.1-macos-x64\<close> and takes the disk-image
  path: it hands the \<^verbatim>\<open>appdmg\<close> command that writes \<^verbatim>\<open>dist/Foo-2.1-macos-x64.dmg\<close> to the
  shell. On \<^verbatim>\<open>win32-ia32\<close> the loop calls \<^verbatim>\<open>makezip\<close> with \<^verbatim>\<open>unwrapped=True\<close> (and the
  result is not the one \<^verbatim>\<open>unwrapped=False\<close> gives): the zip command runs inside the bundle
  directory and writes \<^verbatim>\<open>Foo-2.1-win32-ia32.zip\<close>. The last equation is the loop over both
  platforms.
\<close>

theorem makezip_naming_example:
  "zip_phase sh (JStr ''Foo'') (JStr ''2.1'') [''darwin-x64''] w
     = (None,
        \<lparr>disk = sh (''rm -f dist/Foo-2.1-macos-x64.dmg; ''
                      @ ''node_modules/.bin/appdmg resources/pack-dmg-spec.json ''
                      @ ''dist/Foo-2.1-macos-x64.dmg'') (disk w),
         calls = calls w @ [''rm -f dist/Foo-2.1-macos-x64.dmg; ''
                      @ ''node_modules/.bin/appdmg resources/pack-dmg-spec.json ''
                      @ ''dist/Foo-2.1-macos-x64.dmg''],
         out = out w @ [''AppDMGing up: dist/Foo-darwin-x64 to Foo-2.1-macos-x64'']\<rparr>)
   \<and> zip_phase sh (JStr ''Foo'') (JStr ''2.1'') [''win32-ia32''] w
     = makezip sh (JStr ''Foo'') (JStr ''2.1'') ''dist/Foo-win32-ia32'' True w
   \<and> zip_phase sh (JStr ''Foo'') (JStr ''2.1'') [''win32-ia32''] w
     \<noteq> makezip sh (JStr ''Foo'') (JStr ''2.1'') ''dist/Foo-win32-ia32'' False w
   \<and> zip_phase sh (JStr ''Foo'') (JStr ''2.1'') [''win32-ia32''] w
     = (None,
        \<lparr>disk = sh (''cd dist/Foo-win32-ia32; rm -f ../Foo-2.1-win32-ia32.zip; ''
                      @ ''zip -q -r ../Foo-2.1-win32-ia32.zip *'') (disk w),
         calls = calls w @ [''cd dist/Foo-win32-ia32; rm -f ../Foo-2.1-win32-ia32.zip; ''
                      @ ''zip -q -r ../Foo-2.1-win32-ia32.zip *''],
         out = out w @ [''Zipping up: dist/Foo-win32-ia32 to Foo-2.1-win32-ia32 (unwrapped)'']\<rparr>)
   \<and> zip_phase sh (JStr ''Foo'') (JStr ''2.1'') [''darwin-x64'', ''win32-ia32''] w
     = (None,
        \<lparr>disk = sh (''cd dist/Foo-win32-ia32; rm -f ../Foo-2.1-win32-ia32.zip; ''
                      @ ''zip -q -r ../Foo-2.1-win32-ia32.zip *'')
                  (sh (''rm -f dist/Foo-2.1-macos-x64.dmg; ''
                      @ ''node_modules/.bin/appdmg resources/pack-dmg-spec.json ''
                      @ ''dist/Foo-2.1-macos-x64.dmg'') (disk w)),
         calls = calls w @ [''rm -f dist/Foo-2.1-macos-x64.dmg; ''
                      @ ''node_modules/.bin/appdmg resources/pack-dmg-spec.json ''
                      @ ''dist/Foo-2.1-macos-x64.dmg'',
                    ''cd dist/Foo-win32-ia32; rm -f ../Foo-2.1-win32-ia32.zip; ''
                      @ ''zip -q -r ../Foo-2.1-win32-ia32.zip *''],
         out = out w @ [''AppDMGing up: dist/Foo-darwin-x64 to Foo-2.1-macos-x64'',
                    ''Zipping up: dist/Foo-win32-ia32 to Foo-2.1-win32-ia32 (unwrapped)'']\<rparr>)"
proof -
  have neq: "zip_phase sh (JStr ''Foo'') (JStr ''2.1'') [''win32-ia32''] w
     \<noteq> makezip sh (JStr ''Foo'') (JStr ''2.1'') ''dist/Foo-win32-ia32'' False w"
  proof
    assume "zip_phase sh (JStr ''Foo'') (JStr ''2.1'') [''win32-ia32''] w
      = makezip sh (JStr ''Foo'') (JStr ''2.1'') ''dist/Foo-win32-ia32'' False w"
    then have "out (snd (zip_phase sh (JStr ''Foo'') (JStr ''2.1'') [''win32-ia32''] w))
      = out (snd (makezip sh (JStr ''Foo'') (JStr ''2.1'') ''dist/Foo-win32-ia32'' False w))"
      by simp
    then show False
      by (simp add: zip_phase_def makezip_def dest_of_def path_split_def zipfile_raw_def
          py_print_def subprocess_call_def Let_def)
  qed
  show ?thesis
    using neq
    by (simp add: zip_phase_def makezip_def dest_of_def path_split_def zipfile_raw_def py_print_def
        subprocess_call_def dmg_command_def zip_command_def)
qed

text \<open>
  Claim C4. When the base name of the bundle directory does not start with the product
  name followed by \<^verbatim>\<open>-\<close>, \<^verbatim>\<open>makezip\<close> raises its exception
  \<^verbatim>\<open>path does not have the prefix\<close> (the spec's PathPrefixError) and the state is the one
  it was called in: no command was handed to the shell, so no archive tool ran and no
  earlier archive was removed, and nothing was printed.
\<close>

theorem makezip_prefix_error:
  "\<not> prefix (name @ ''-'') (snd (path_split dir)) \<Longrightarrow>
   makezip sh (JStr name) product_version dir unwrapped w
     = (Some (Exception ''path does not have the prefix''), w)"
  by (simp add: makezip_def Let_def)

theorem makezip_prefix_error_witness:
  "\<not> prefix (''Foo'' @ ''-'') (snd (path_split ''dist/Bar-win32-x64''))
   \<and> makezip example_sh (JStr ''Foo'') (JStr ''2.1'') ''dist/Bar-win32-x64'' False example_world
     = (Some (Exception ''path does not have the prefix''), example_world)"
  using makezip_prefix_error [of "''Foo''" "''dist/Bar-win32-x64''" example_sh "JStr ''2.1''" False example_world]
  by (simp add: path_split_def)

section \<open>Paths, statements and what they leave alone\<close>


lemma split_sep_nonempty: "split_sep sep s \<noteq> []"
  by (induction s) (auto split: list.splits)

lemma split_sep_append: "split_sep sep (a @ sep # b) = split_sep sep a @ split_sep sep b"
proof (induction a)
  case Nil
  then show ?case by simp
next
  case (Cons c a)
  obtain h t where ht: "split_sep sep a = h # t"
    using split_sep_nonempty [of sep a] by (cases "split_sep sep a") auto
  show ?case using Cons ht by simp
qed

lemma path_of_Nil: "path_of [] = []"
  by (simp add: path_of_def)

lemma path_of_slash: "path_of (a @ CHR ''/'' # b) = path_of a @ path_of b"
  by (simp add: path_of_def split_sep_append)

lemma path_of_join: "\<not> prefix ''/'' b \<Longrightarrow> path_of (path_join a b) = path_of a @ path_of b"
proof (cases "a = [] \<or> last a = CHR ''/''")
  case True
  assume nb: "\<not> prefix ''/'' b"
  show ?thesis
  proof (cases "a = []")
    case True
    then show ?thesis using nb by (simp add: path_join_def path_of_Nil)
  next
    case False
    with True have "a = butlast a @ [CHR ''/'']" by (metis append_butlast_last_id)
    then obtain a' where a: "a = a' @ [CHR ''/'']" ..
    have "path_of (a @ b) = path_of a' @ path_of b" using a by (simp add: path_of_slash)
    moreover have "path_of a = path_of a'" using a path_of_slash [of a' "[]"] by (simp add: path_of_Nil)
    ultimately show ?thesis using nb True by (simp add: path_join_def)
  qed
next
  case False
  assume nb: "\<not> prefix ''/'' b"
  then show ?thesis using False by (simp add: path_join_def path_of_slash)
qed

lemma seq_rel:
  assumes refl: "\<And>s. R s s"
    and trans: "\<And>a b c. R a b \<Longrightarrow> R b c \<Longrightarrow> R a c"
    and step: "\<And>f s. f \<in> set fs \<Longrightarrow> R s (snd (f s))"
  shows "R s (snd (seq fs s))"
  using step
proof (induction fs arbitrary: s)
  case Nil
  then show ?case by (simp add: refl)
next
  case (Cons f fs)
  have 1: "R s (snd (f s))" using Cons.prems by simp
  show ?case
  proof (cases "f s")
    case (Pair e s')
    show ?thesis
    proof (cases e)
      case None
      have "R s' (snd (seq fs s'))" using Cons.IH Cons.prems by simp
      with 1 Pair None show ?thesis by (auto intro: trans)
    next
      case (Some a)
      with 1 Pair show ?thesis by simp
    qed
  qed
qed

lemma for_each_rel:
  assumes refl: "\<And>s. R s s"
    and trans: "\<And>a b c. R a b \<Longrightarrow> R b c \<Longrightarrow> R a c"
    and step: "\<And>x s. x \<in> set xs \<Longrightarrow> R s (snd (body x s))"
  shows "R s (snd (for_each body xs s))"
  using step
proof (induction xs arbitrary: s)
  case Nil
  then show ?case by (simp add: refl)
next
  case (Cons x xs)
  have 1: "R s (snd (body x s))" using Cons.prems by simp
  show ?case
  proof (cases "body x s")
    case (Pair e s')
    show ?thesis
    proof (cases e)
      case None
      have "R s' (snd (for_each body xs s'))" using Cons.IH Cons.prems by simp
      with 1 Pair None show ?thesis by (auto intro: trans)
    next
      case (Some a)
      with 1 Pair show ?thesis by simp
    qed
  qed
qed

lemma on_disk_calls: "calls (snd (on_disk f w)) = calls w"
  by (simp add: on_disk_def split: prod.splits)

lemma on_disk_out: "out (snd (on_disk f w)) = out w"
  by (simp add: on_disk_def split: prod.splits)

lemma py_print_calls: "calls (snd (py_print l w)) = calls w"
  by (simp add: py_print_def)

lemma seq_calls:
  "(\<And>f s. f \<in> set fs \<Longrightarrow> calls (snd (f s)) = calls s) \<Longrightarrow> calls (snd (seq fs w)) = calls w"
  using seq_rel [where R = "\<lambda>a b. calls b = calls a" and fs = fs and s = w] by simp

lemma install_calls: "calls (snd (install r w)) = calls w"
  by (auto simp del: seq.simps simp: install_def Let_def on_disk_calls py_print_calls
      intro!: seq_calls)

text \<open>
  Claim C9. The manifest has been read and there are filter arguments, none of which
  occurs in any of the five platform names. Then the run ends with the exception
  \<^verbatim>\<open>no packages selected\<close> (the spec's NoPlatformsSelectedError), and the state at that
  point differs from the initial one only by the printed version line: the disk is
  untouched (no staging directory, no staged file) and no command was run.
\<close>

theorem run_no_packages:
  assumes "read_manifest json_load (disk w) = Inr (product_version, product_name)"
    and "args \<noteq> []"
    and "\<forall>a \<in> set args. \<forall>p \<in> set all_packages. \<not> str_in a p"
  shows "run sh json_load op args w
     = (Some (Exception ''no packages selected''),
        w\<lparr>out := out w @ [py_str product_name @ '' version: '' @ py_str product_version]\<rparr>)"
proof -
  have "select_packages args = []"
    using assms(2,3) by (auto simp: select_packages_filter matches_iff filter_empty_conv)
  then show ?thesis using assms(1) by (simp add: run_def py_print_def)
qed


lemma seq_out:
  "(\<And>f s. f \<in> set fs \<Longrightarrow> prefix (out s) (out (snd (f s)))) \<Longrightarrow> prefix (out w) (out (snd (seq fs w)))"
  using seq_rel [where R = "\<lambda>a b. prefix (out a) (out b)" and fs = fs and s = w]
  by (meson prefix_order.order_refl prefix_order.order_trans)

lemma for_each_out:
  "(\<And>x s. x \<in> set xs \<Longrightarrow> prefix (out s) (out (snd (body x s)))) \<Longrightarrow>
   prefix (out w) (out (snd (for_each body xs w)))"
  using for_each_rel [where R = "\<lambda>a b. prefix (out a) (out b)" and xs = xs and s = w and body = body]
  by (meson prefix_order.order_refl prefix_order.order_trans)

lemma for_each_calls:
  "(\<And>x s. x \<in> set xs \<Longrightarrow> calls (snd (body x s)) = calls s) \<Longrightarrow>
   calls (snd (for_each body xs w)) = calls w"
  using for_each_rel [where R = "\<lambda>a b. calls b = calls a" and xs = xs and s = w and body = body]
  by simp

lemma py_print_out: "prefix (out w) (out (snd (py_print l w)))"
  by (simp add: py_print_def)

lemma subprocess_call_out: "prefix (out w) (out (snd (subprocess_call sh c w)))"
  by (simp add: subprocess_call_def)

lemma on_disk_out_prefix: "prefix (out w) (out (snd (on_disk f w)))"
  by (simp add: on_disk_out)

lemma install_out: "prefix (out w) (out (snd (install r w)))"
  by (auto simp del: seq.simps simp: install_def Let_def on_disk_out py_print_out
      intro!: seq_out)

lemma builddir_out: "prefix (out w) (out (snd (builddir sh d p w)))"
  by (auto simp del: seq.simps simp: builddir_def on_disk_out subprocess_call_out
      intro!: seq_out)

lemma makezip_out: "prefix (out w) (out (snd (makezip sh n v d u w)))"
  by (auto simp del: seq.simps simp: makezip_def Let_def py_print_out subprocess_call_out
      split: jval.splits intro!: seq_out)

lemma run_after_manifest_out:
  assumes "read_manifest json_load (disk w) = Inr (v, n)"
  shows "prefix (out w @ [py_str n @ '' version: '' @ py_str v]) (out (snd (run sh json_load op args w)))"
proof -
  let ?w1 = "w\<lparr>out := out w @ [py_str n @ '' version: '' @ py_str v]\<rparr>"
  let ?rest = "(\<lambda>w1. let packages = select_packages args in
                 if packages = [] then (Some (Exception ''no packages selected''), w1)
                 else
                   seq [on_disk (makedirs (path_of ''tempapp'')),
                        install ''tempapp'',
                        on_disk (makedirs (path_of ''dist'')),
                        (\<lambda>w2. if build_wanted op
                               then build_phase sh n (select_packages args) w2 else (None, w2)),
                        (\<lambda>w3. if zip_wanted op
                               then zip_phase sh n v (select_packages args) w3
                               else (None, w3))] w1)"
  have run: "run sh json_load op args w = seq [?rest] ?w1"
    using assms by (simp add: run_def py_print_def Let_def)
  have "prefix (out ?w1) (out (snd (seq [?rest] ?w1)))"
    by (rule seq_out)
      (auto simp del: seq.simps simp: Let_def on_disk_out install_out build_phase_def zip_phase_def
        builddir_out makezip_out intro!: seq_out for_each_out)
  then show ?thesis using run by simp
qed


text \<open>
  Claim C8, as the code has it. When reading the manifest fails, the run ends with that
  exception in the state it started in (nothing printed, no file operation, no command);
  otherwise it goes on and prints the version line. Reading succeeds exactly when
  \<^verbatim>\<open>package.json\<close> is a regular file whose text \<^verbatim>\<open>json.load\<close> turns into an object that
  has both keys \<^verbatim>\<open>version\<close> and \<^verbatim>\<open>productName\<close>. The values are not looked at.
\<close>

theorem run_manifest_reading:
  "(case read_manifest json_load (disk w) of
      Inl e \<Rightarrow> run sh json_load op args w = (Some e, w)
    | Inr (v, n) \<Rightarrow>
        prefix (out w @ [py_str n @ '' version: '' @ py_str v])
          (out (snd (run sh json_load op args w))))
   \<and> ((\<exists>v n. read_manifest json_load (disk w) = Inr (v, n))
        = (\<exists>text pkg v n. lookup (disk w) [''package.json''] = Some (File text)
             \<and> json_load text = Some (JObject pkg)
             \<and> pkg ''version'' = Some v \<and> pkg ''productName'' = Some n))"
proof -
  have a: "run sh json_load op args w = (Some e, w)"
    if "read_manifest json_load (disk w) = Inl e" for e
    using that by (simp add: run_def)
  have b: "(\<exists>v n. read_manifest json_load (disk w) = Inr (v, n))
        = (\<exists>text pkg v n. lookup (disk w) [''package.json''] = Some (File text)
             \<and> json_load text = Some (JObject pkg)
             \<and> pkg ''version'' = Some v \<and> pkg ''productName'' = Some n)"
    by (auto simp: read_manifest_def path_of_def
        split: option.splits node.splits json_doc.splits)
  show ?thesis
    using a b run_after_manifest_out [of json_load w _ _ sh op args]
    by (auto split: sum.splits)
qed

text \<open>
  Claim C8 as stated fails: with both values the empty string the run gets past the
  manifest, prints the version line (both strings empty) and only stops at the platform
  selection, here because the filter \<^verbatim>\<open>zzz\<close> selects nothing.
\<close>

theorem empty_manifest_values_accepted:
  "run example_sh
     (\<lambda>text. Some (JObject [''version'' \<mapsto> JStr [], ''productName'' \<mapsto> JStr []]))
     \<lparr>opt_makedist = False, opt_makezip = False, opt_makenothing = False\<rparr> [''zzz'']
     example_world
   = (Some (Exception ''no packages selected''), example_world\<lparr>out := ['' version: '']\<rparr>)"
  by (simp add: run_def read_manifest_def example_world_def example_disk_def path_of_def
      lookup_def py_print_def select_packages_def all_packages_def)

text \<open>
  Claim C2 on the code. The product is named \<^verbatim>\<open>darwin\<close> and the bundle directory is the
  one of \<^verbatim>\<open>linux-x64\<close>, whose platform identifier does not contain \<^verbatim>\<open>darwin\<close>. The test
  \<^verbatim>\<open>'darwin' in zipfile\<close> looks at the whole archive name, finds the product name, and
  \<^verbatim>\<open>makezip\<close> runs the disk-image command instead of \<^verbatim>\<open>zip\<close>.
\<close>

theorem makezip_darwin_in_product_name:
  "\<not> str_in ''darwin'' ''linux-x64''
   \<and> makezip sh (JStr ''darwin'') (JStr ''1.0'') (dest_of (JStr ''darwin'') ''linux-x64'')
        (str_in ''win32'' ''linux-x64'') w
     = (None,
        \<lparr>disk = sh (dmg_command ''macos-1.0-linux-x64'') (disk w),
         calls = calls w @ [''rm -f dist/macos-1.0-linux-x64.dmg; ''
                      @ ''node_modules/.bin/appdmg resources/pack-dmg-spec.json ''
                      @ ''dist/macos-1.0-linux-x64.dmg''],
         out = out w @ [''AppDMGing up: dist/darwin-linux-x64 to macos-1.0-linux-x64'']\<rparr>)"
  by (simp add: makezip_def dest_of_def path_split_def zipfile_raw_def py_print_def
      subprocess_call_def dmg_command_def zip_command_def)

text \<open>
  Claim C5 on the code. For the product \<^verbatim>\<open>darwin\<close> and the platform \<^verbatim>\<open>darwin-x64\<close> the
  archive name is first \<^verbatim>\<open>darwin-1.0-darwin-x64\<close>; \<^verbatim>\<open>zipfile.replace\<close> rewrites every
  occurrence, so the product-name part of the name is changed to \<^verbatim>\<open>macos\<close> as well.
\<close>

theorem makezip_replace_in_product_name:
  "zipfile_raw ''darwin'' ''1.0'' (snd (path_split (dest_of (JStr ''darwin'') ''darwin-x64'')))
     = ''darwin-1.0-darwin-x64''
   \<and> makezip sh (JStr ''darwin'') (JStr ''1.0'') (dest_of (JStr ''darwin'') ''darwin-x64'')
        (str_in ''win32'' ''darwin-x64'') w
     = (None,
        \<lparr>disk = sh (dmg_command ''macos-1.0-macos-x64'') (disk w),
         calls = calls w @ [dmg_command ''macos-1.0-macos-x64''],
         out = out w @ [''AppDMGing up: dist/darwin-darwin-x64 to macos-1.0-macos-x64'']\<rparr>)"
  by (simp add: makezip_def dest_of_def path_split_def zipfile_raw_def py_print_def
      subprocess_call_def Let_def)

lemma seq_Cons_if: "seq (f # fs) s = (if fst (f s) = None then seq fs (snd (f s)) else f s)"
  by (cases "f s") (auto split: option.splits)

lemma for_each_Cons_if:
  "for_each body (x # xs) s = (if fst (body x s) = None then for_each body xs (snd (body x s)) else body x s)"
  by (cases "body x s") (auto split: option.splits)

lemma subprocess_call_calls: "calls (snd (subprocess_call sh c w)) = calls w @ [c]"
  by (simp add: subprocess_call_def)

lemma seq_calls_head:
  assumes "\<And>g s. g \<in> set fs \<Longrightarrow> calls (snd (g s)) = calls s"
  shows "calls (snd (seq (f # fs) w)) = calls (snd (f w))"
  using seq_calls [of fs "snd (f w)"] assms by (simp del: seq.simps add: seq_Cons_if)

lemma builddir_calls: "calls (snd (builddir sh d p w)) = calls w @ [''npm run package-'' @ p]"
  unfolding builddir_def
  by (subst seq_calls_head) (auto simp: on_disk_calls subprocess_call_calls)

lemma for_each_calls_success_map:
  assumes "\<And>x s. x \<in> set xs \<Longrightarrow> calls (snd (body x s)) = calls s @ [g x]"
    and "fst (for_each body xs w) = None"
  shows "calls (snd (for_each body xs w)) = calls w @ map g xs"
  using assms
proof (induction xs arbitrary: w)
  case Nil
  then show ?case by simp
next
  case (Cons x xs)
  have ok: "fst (body x w) = None"
    using Cons.prems(2) by (cases "body x w") (auto split: option.splits)
  then have "for_each body (x # xs) w = for_each body xs (snd (body x w))"
    by (simp del: for_each.simps add: for_each_Cons_if)
  moreover have "calls (snd (for_each body xs (snd (body x w)))) = calls (snd (body x w)) @ map g xs"
    using Cons.IH [of "snd (body x w)"] Cons.prems ok by (simp del: for_each.simps add: for_each_Cons_if)
  ultimately show ?case using Cons.prems(1) [of x w] by (simp del: for_each.simps)
qed

text \<open>
  The hypotheses of C9 hold for the filter \<^verbatim>\<open>zzz\<close> in the example tree.
\<close>

theorem run_no_packages_witness:
  "read_manifest example_json_load (disk example_world) = Inr (JStr ''1.0'', JStr ''App'')
   \<and> [''zzz''] \<noteq> []
   \<and> list_all (\<lambda>p. \<not> str_in ''zzz'' p) all_packages
   \<and> run example_sh example_json_load
        \<lparr>opt_makedist = False, opt_makezip = False, opt_makenothing = False\<rparr> [''zzz'']
        example_world
      = (Some (Exception ''no packages selected''), example_world\<lparr>out := [''App version: 1.0'']\<rparr>)"
proof -
  have m: "read_manifest example_json_load (disk example_world) = Inr (JStr ''1.0'', JStr ''App'')"
    by (simp add: read_manifest_def example_json_load_def example_world_def example_disk_def
        path_of_def lookup_def)
  have n: "\<forall>a \<in> set [''zzz'']. \<forall>p \<in> set all_packages. \<not> str_in a p"
    by (simp add: all_packages_def)
  show ?thesis
    using run_no_packages [OF m _ n, of example_sh
        "\<lparr>opt_makedist = False, opt_makezip = False, opt_makenothing = False\<rparr>"] m
    by (simp add: all_packages_def example_world_def)
qed

lemma build_phase_calls:
  "fst (build_phase sh n packs w) = None \<Longrightarrow>
   calls (snd (build_phase sh n packs w)) = calls w @ map (\<lambda>pack. ''npm run package-'' @ pack) packs"
  unfolding build_phase_def
  by (rule for_each_calls_success_map) (auto simp: builddir_calls)

lemma run_no_phase_calls:
  assumes "\<not> build_wanted op" "\<not> zip_wanted op"
  shows "calls (snd (run sh json_load op args w)) = calls w"
proof (cases "read_manifest json_load (disk w)")
  case (Inl e)
  then show ?thesis by (simp add: run_def)
next
  case (Inr vn)
  then show ?thesis using assms
    by (cases vn)
      (auto simp del: seq.simps simp: run_def Let_def py_print_calls on_disk_calls install_calls
        intro!: seq_calls)
qed

lemma makezip_calls_exact:
  "fst (makezip sh n v d u w) = None \<Longrightarrow>
   calls (snd (makezip sh n v d u w)) = calls w @ [archive_command (py_str n) (py_str v) d u]"
  by (auto simp: makezip_def archive_command_def Let_def py_print_def subprocess_call_def
      split: jval.splits if_splits)

lemma for_each_calls_ok_map:
  assumes "\<And>x s. x \<in> set xs \<Longrightarrow> fst (body x s) = None \<Longrightarrow> calls (snd (body x s)) = calls s @ [g x]"
    and "fst (for_each body xs w) = None"
  shows "calls (snd (for_each body xs w)) = calls w @ map g xs"
  using assms
proof (induction xs arbitrary: w)
  case Nil
  then show ?case by simp
next
  case (Cons x xs)
  have ok: "fst (body x w) = None"
    using Cons.prems(2) by (cases "body x w") (auto split: option.splits)
  then have eq: "for_each body (x # xs) w = for_each body xs (snd (body x w))"
    by (simp del: for_each.simps add: for_each_Cons_if)
  have 1: "calls (snd (body x w)) = calls w @ [g x]"
    by (rule Cons.prems(1) [OF _ ok]) simp
  have "calls (snd (for_each body xs (snd (body x w)))) = calls (snd (body x w)) @ map g xs"
  proof (rule Cons.IH)
    show "calls (snd (body y s)) = calls s @ [g y]" if "y \<in> set xs" "fst (body y s) = None" for y s
      by (rule Cons.prems(1) [OF _ that(2)]) (simp add: that(1))
    show "fst (for_each body xs (snd (body x w))) = None" using Cons.prems(2) eq by simp
  qed
  then show ?case using eq 1 by simp
qed

lemma zip_phase_calls_exact:
  "fst (zip_phase sh n v packs w) = None \<Longrightarrow>
   calls (snd (zip_phase sh n v packs w))
     = calls w @ map (\<lambda>pack. archive_command (py_str n) (py_str v) (dest_of n pack)
                              (str_in ''win32'' pack)) packs"
  unfolding zip_phase_def
  by (rule for_each_calls_ok_map) (auto simp: makezip_calls_exact)

lemma seq_append:
  "seq (xs @ ys) s = (case seq xs s of (None, s') \<Rightarrow> seq ys s' | (Some e, s') \<Rightarrow> (Some e, s'))"
  by (induction xs arbitrary: s) (auto split: prod.splits option.splits)

lemma run_phases:
  assumes "read_manifest json_load (disk w) = Inr (v, n)"
  shows "run sh json_load op args w =
     (case run sh json_load \<lparr>opt_makedist = False, opt_makezip = False, opt_makenothing = True\<rparr>
             args w of
        (Some e, w') \<Rightarrow> (Some e, w')
      | (None, w') \<Rightarrow>
          (case (if build_wanted op then build_phase sh n (select_packages args) w' else (None, w')) of
             (Some e, w'') \<Rightarrow> (Some e, w'')
           | (None, w'') \<Rightarrow>
               (if zip_wanted op then zip_phase sh n v (select_packages args) w''
                else (None, w''))))"
proof -
  let ?P = "select_packages args"
  let ?w1 = "w\<lparr>out := out w @ [py_str n @ '' version: '' @ py_str v]\<rparr>"
  let ?stage = "[on_disk (makedirs (path_of ''tempapp'')), install ''tempapp'',
                 on_disk (makedirs (path_of ''dist''))]"
  let ?none = "\<lparr>opt_makedist = False, opt_makezip = False, opt_makenothing = True\<rparr>"
  have nw: "\<not> build_wanted ?none" "\<not> zip_wanted ?none"
    by (simp_all add: build_wanted_def zip_wanted_def doall_def)
  show ?thesis
  proof (cases "?P = []")
    case True
    then show ?thesis using assms by (simp add: run_def py_print_def)
  next
    case False
    have r: "run sh json_load op' args w
        = seq (?stage @ [(\<lambda>w2. if build_wanted op' then build_phase sh n ?P w2 else (None, w2)),
                         (\<lambda>w3. if zip_wanted op' then zip_phase sh n v ?P w3 else (None, w3))]) ?w1"
      for op'
      using assms False
      by (simp del: seq.simps add: run_def py_print_def Let_def seq_Cons_if seq.simps(1))
    have skip: "seq [(\<lambda>w2. if build_wanted ?none then build_phase sh n ?P w2 else (None, w2)),
                     (\<lambda>w3. if zip_wanted ?none then zip_phase sh n v ?P w3 else (None, w3))] s
                = (None, s)" for s
      using nw by simp
    have none: "run sh json_load ?none args w = seq ?stage ?w1"
      unfolding r seq_append skip by (simp split: prod.splits option.splits)
    have two: "seq [(\<lambda>w2. if build_wanted op then build_phase sh n ?P w2 else (None, w2)),
                    (\<lambda>w3. if zip_wanted op then zip_phase sh n v ?P w3 else (None, w3))] s
         = (case (if build_wanted op then build_phase sh n ?P s else (None, s)) of
             (Some e, w'') \<Rightarrow> (Some e, w'')
           | (None, w'') \<Rightarrow> (if zip_wanted op then zip_phase sh n v ?P w'' else (None, w'')))" for s
      by (simp split: prod.splits option.splits)
    show ?thesis
      unfolding none unfolding r seq_append two
      by (simp split: prod.splits option.splits)
  qed
qed


lemma run_calls_exact:
  assumes m: "read_manifest json_load (disk w) = Inr (v, n)"
    and ok: "fst (run sh json_load op args w) = None"
  shows "calls (snd (run sh json_load op args w))
     = calls w
       @ (if build_wanted op
          then map (\<lambda>pack. ''npm run package-'' @ pack) (select_packages args) else [])
       @ (if zip_wanted op
          then map (\<lambda>pack. archive_command (py_str n) (py_str v) (dest_of n pack)
                            (str_in ''win32'' pack)) (select_packages args)
          else [])"
proof -
  let ?P = "select_packages args"
  let ?none = "\<lparr>opt_makedist = False, opt_makezip = False, opt_makenothing = True\<rparr>"
  obtain e0 w' where r0: "run sh json_load ?none args w = (e0, w')"
    by (cases "run sh json_load ?none args w")
  have e0: "e0 = None"
    using ok run_phases [OF m, of sh op args] r0 by (cases e0) auto
  have c0: "calls w' = calls w"
    using run_no_phase_calls [of ?none sh json_load args w] r0
    by (simp add: build_wanted_def zip_wanted_def doall_def)
  let ?b = "if build_wanted op then build_phase sh n ?P w' else (None, w')"
  obtain e1 w'' where b: "?b = (e1, w'')" by (cases ?b)
  have e1: "e1 = None"
    using ok run_phases [OF m, of sh op args] r0 e0 b by (cases e1) auto
  let ?z = "if zip_wanted op then zip_phase sh n v ?P w'' else (None, w'')"
  have rz: "run sh json_load op args w = ?z"
    using run_phases [OF m, of sh op args] r0 e0 b e1 by simp
  have c1: "calls w'' = calls w'
       @ (if build_wanted op then map (\<lambda>pack. ''npm run package-'' @ pack) ?P else [])"
    using build_phase_calls [of sh n ?P w'] b e1 by (auto split: if_splits)
  have c2: "calls (snd ?z) = calls w''
       @ (if zip_wanted op
          then map (\<lambda>pack. archive_command (py_str n) (py_str v) (dest_of n pack)
                            (str_in ''win32'' pack)) ?P
          else [])"
    using zip_phase_calls_exact [of sh n v ?P w''] ok rz by (auto split: if_splits)
  show ?thesis using rz c0 c1 c2 by simp
qed

text \<open>
  Claim C6, as the code has it. The bundle builder runs when \<^verbatim>\<open>--build\<close> is given or no
  mode option is; the archiver runs when \<^verbatim>\<open>--zip\<close> is given or no mode option is. So
  \<^verbatim>\<open>--none\<close> only switches the default off. When neither phase is wanted (\<^verbatim>\<open>--none\<close>
  alone), the run hands no command to the shell. Once the manifest has been read, every
  run is the run of \<^verbatim>\<open>--none\<close> alone (the staging), followed, if that raised nothing, by
  the build loop over the selected platforms exactly when the first gate is open, and
  then, if that raised nothing, by the archive loop over the selected platforms exactly
  when the second gate is open. A run that ends without an exception has handed to the
  shell exactly the bundler's command for each selected platform in order, if the build
  gate is open, and then the archive command for each selected platform in order, if the
  archive gate is open, and nothing else. With no mode option both gates are open.
\<close>

theorem run_phase_gates:
  "build_wanted op = (opt_makedist op \<or> (\<not> opt_makezip op \<and> \<not> opt_makenothing op))
   \<and> zip_wanted op = (opt_makezip op \<or> (\<not> opt_makedist op \<and> \<not> opt_makenothing op))
   \<and> (\<not> build_wanted op \<and> \<not> zip_wanted op \<longrightarrow> calls (snd (run sh json_load op args w)) = calls w)
   \<and> (read_manifest json_load (disk w) = Inr (v, n) \<longrightarrow>
        run sh json_load op args w =
          (case run sh json_load
                  \<lparr>opt_makedist = False, opt_makezip = False, opt_makenothing = True\<rparr> args w of
             (Some e, w') \<Rightarrow> (Some e, w')
           | (None, w') \<Rightarrow>
               (case (if build_wanted op then build_phase sh n (select_packages args) w'
                      else (None, w')) of
                  (Some e, w'') \<Rightarrow> (Some e, w'')
                | (None, w'') \<Rightarrow>
                    (if zip_wanted op then zip_phase sh n v (select_packages args) w''
                     else (None, w''))))
        \<and> (fst (run sh json_load op args w) = None \<longrightarrow>
             calls (snd (run sh json_load op args w))
               = calls w
                 @ (if build_wanted op
                    then map (\<lambda>pack. ''npm run package-'' @ pack) (select_packages args) else [])
                 @ (if zip_wanted op
                    then map (\<lambda>pack. archive_command (py_str n) (py_str v) (dest_of n pack)
                                      (str_in ''win32'' pack)) (select_packages args)
                    else [])))"
proof -
  have g: "build_wanted op = (opt_makedist op \<or> (\<not> opt_makezip op \<and> \<not> opt_makenothing op))"
    "zip_wanted op = (opt_makezip op \<or> (\<not> opt_makedist op \<and> \<not> opt_makenothing op))"
    by (auto simp: build_wanted_def zip_wanted_def doall_def)
  show ?thesis
    using g run_no_phase_calls [of op sh json_load args w]
      run_phases [of json_load w v n sh op args] run_calls_exact [of json_load w v n sh op args]
    by blast
qed

lemma example_manifest:
  "read_manifest example_json_load (disk example_world) = Inr (JStr ''1.0'', JStr ''App'')"
  by (simp add: read_manifest_def example_json_load_def example_world_def example_disk_def
      path_of_def lookup_def)

lemma example_run_ok:
  "fst (run example_sh example_json_load
          \<lparr>opt_makedist = False, opt_makezip = False, opt_makenothing = False\<rparr> [''win32'']
          example_world) = None"
  by code_simp

lemma example_run_none_build_ok:
  "fst (run example_sh example_json_load
          \<lparr>opt_makedist = True, opt_makezip = False, opt_makenothing = True\<rparr> [''linux-x64'']
          example_world) = None"
  by code_simp

text \<open>
  Claim C6 as stated fails: with \<^verbatim>\<open>--none\<close> and \<^verbatim>\<open>--build\<close> together the bundler is run.
\<close>

theorem none_with_build_still_builds:
  "opt_makenothing \<lparr>opt_makedist = True, opt_makezip = False, opt_makenothing = True\<rparr>
   \<and> calls (snd (run example_sh example_json_load
        \<lparr>opt_makedist = True, opt_makezip = False, opt_makenothing = True\<rparr> [''linux-x64'']
        example_world)) = [''npm run package-linux-x64'']"
  by code_simp

text \<open>
  The property C6 in the example tree: \<^verbatim>\<open>--none\<close> alone runs no command; \<^verbatim>\<open>--none\<close> with
  \<^verbatim>\<open>--build\<close> on \<^verbatim>\<open>linux-x64\<close> runs the bundler and no archiver; no option on the filter
  \<^verbatim>\<open>win32\<close> runs the bundler for both platforms and then the two zip commands.
\<close>

theorem run_phase_gates_witness:
  "\<not> build_wanted \<lparr>opt_makedist = False, opt_makezip = False, opt_makenothing = True\<rparr>
   \<and> \<not> zip_wanted \<lparr>opt_makedist = False, opt_makezip = False, opt_makenothing = True\<rparr>
   \<and> calls (snd (run example_sh example_json_load
         \<lparr>opt_makedist = False, opt_makezip = False, opt_makenothing = True\<rparr> [] example_world))
       = calls example_world
   \<and> read_manifest example_json_load (disk example_world) = Inr (JStr ''1.0'', JStr ''App'')
   \<and> fst (run example_sh example_json_load
         \<lparr>opt_makedist = True, opt_makezip = False, opt_makenothing = True\<rparr> [''linux-x64'']
         example_world) = None
   \<and> calls (snd (run example_sh example_json_load
         \<lparr>opt_makedist = True, opt_makezip = False, opt_makenothing = True\<rparr> [''linux-x64'']
         example_world))
       = [''npm run package-linux-x64'']
   \<and> fst (run example_sh example_json_load
         \<lparr>opt_makedist = False, opt_makezip = False, opt_makenothing = False\<rparr> [''win32'']
         example_world) = None
   \<and> calls (snd (run example_sh example_json_load
         \<lparr>opt_makedist = False, opt_makezip = False, opt_makenothing = False\<rparr> [''win32'']
         example_world))
       = [''npm run package-win32-ia32'', ''npm run package-win32-x64'',
          ''cd dist/App-win32-ia32; rm -f ../App-1.0-win32-ia32.zip; zip -q -r ../App-1.0-win32-ia32.zip *'',
          ''cd dist/App-win32-x64; rm -f ../App-1.0-win32-x64.zip; zip -q -r ../App-1.0-win32-x64.zip *'']"
proof -
  let ?none = "\<lparr>opt_makedist = False, opt_makezip = False, opt_makenothing = True\<rparr>"
  let ?nb = "\<lparr>opt_makedist = True, opt_makezip = False, opt_makenothing = True\<rparr>"
  let ?all = "\<lparr>opt_makedist = False, opt_makezip = False, opt_makenothing = False\<rparr>"
  have g: "\<not> build_wanted ?none \<and> \<not> zip_wanted ?none"
    by (simp add: build_wanted_def zip_wanted_def doall_def)
  have c1: "calls (snd (run example_sh example_json_load ?none [] example_world)) = calls example_world"
    using run_phase_gates [of ?none example_sh example_json_load "[]" example_world] g by blast
  have c2: "calls (snd (run example_sh example_json_load ?nb [''linux-x64''] example_world))
       = calls example_world
         @ (if build_wanted ?nb
            then map (\<lambda>pack. ''npm run package-'' @ pack) (select_packages [''linux-x64'']) else [])
         @ (if zip_wanted ?nb
            then map (\<lambda>pack. archive_command (py_str (JStr ''App'')) (py_str (JStr ''1.0''))
                              (dest_of (JStr ''App'') pack) (str_in ''win32'' pack))
                   (select_packages [''linux-x64''])
            else [])"
    using run_phase_gates [of ?nb example_sh example_json_load "[''linux-x64'']" example_world
        "JStr ''1.0''" "JStr ''App''"] example_manifest example_run_none_build_ok
    by blast
  have c3: "calls (snd (run example_sh example_json_load ?all [''win32''] example_world))
       = calls example_world
         @ (if build_wanted ?all
            then map (\<lambda>pack. ''npm run package-'' @ pack) (select_packages [''win32'']) else [])
         @ (if zip_wanted ?all
            then map (\<lambda>pack. archive_command (py_str (JStr ''App'')) (py_str (JStr ''1.0''))
                              (dest_of (JStr ''App'') pack) (str_in ''win32'' pack))
                   (select_packages [''win32''])
            else [])"
    using run_phase_gates [of ?all example_sh example_json_load "[''win32'']" example_world
        "JStr ''1.0''" "JStr ''App''"] example_manifest example_run_ok
    by blast
  have e2: "calls example_world
         @ (if build_wanted ?nb
            then map (\<lambda>pack. ''npm run package-'' @ pack) (select_packages [''linux-x64'']) else [])
         @ (if zip_wanted ?nb
            then map (\<lambda>pack. archive_command (py_str (JStr ''App'')) (py_str (JStr ''1.0''))
                              (dest_of (JStr ''App'') pack) (str_in ''win32'' pack))
                   (select_packages [''linux-x64''])
            else [])
       = [''npm run package-linux-x64'']"
    by (simp add: build_wanted_def zip_wanted_def doall_def example_world_def select_packages_def
        all_packages_def)
  have e3: "calls example_world
         @ (if build_wanted ?all
            then map (\<lambda>pack. ''npm run package-'' @ pack) (select_packages [''win32'']) else [])
         @ (if zip_wanted ?all
            then map (\<lambda>pack. archive_command (py_str (JStr ''App'')) (py_str (JStr ''1.0''))
                              (dest_of (JStr ''App'') pack) (str_in ''win32'' pack))
                   (select_packages [''win32''])
            else [])
       = [''npm run package-win32-ia32'', ''npm run package-win32-x64'',
          ''cd dist/App-win32-ia32; rm -f ../App-1.0-win32-ia32.zip; zip -q -r ../App-1.0-win32-ia32.zip *'',
          ''cd dist/App-win32-x64; rm -f ../App-1.0-win32-x64.zip; zip -q -r ../App-1.0-win32-x64.zip *'']"
    by (simp add: build_wanted_def zip_wanted_def doall_def example_world_def select_packages_def
        all_packages_def archive_command_def zipfile_raw_def dest_of_def path_split_def
        zip_command_def)
  show ?thesis
    using g c1 c2 c3 e2 e3 example_manifest example_run_none_build_ok example_run_ok
    by simp
qed

section \<open>The bundle builder and the version file\<close>

lemma lookup_delete:
  "p \<noteq> [] \<Longrightarrow> lookup (AList.delete p t) q = (if q = p then None else lookup t q)"
  by (simp add: lookup_def delete_conv')

lemma version_path: "path_of (path_join dir ''version'') = path_of dir @ [''version'']"
  by (simp add: path_of_join) (simp add: path_of_def)

lemma builddir_after_overlay:
  "builddir sh dir pack w =
     (if fst (builddir_overlay sh dir pack w) = None
      then on_disk (unlink (path_of (path_join dir ''version''))) (snd (builddir_overlay sh dir pack w))
      else builddir_overlay sh dir pack w)"
  by (simp add: builddir_def builddir_overlay_def split: prod.splits option.splits)

lemma for_each_append:
  "for_each body (xs @ ys) s
     = (case for_each body xs s of (None, s') \<Rightarrow> for_each body ys s' | (Some e, s') \<Rightarrow> (Some e, s'))"
  by (induction xs arbitrary: s) (auto split: prod.splits option.splits)

lemma build_phase_stops:
  assumes "build_phase sh n before w0 = (None, w)"
    and "builddir sh (dest_of n pack) pack w = (Some e, w')"
  shows "build_phase sh n (before @ pack # rest) w0 = (Some e, w')"
  using assms by (simp add: build_phase_def for_each_append)

lemma run_build_stops:
  assumes m: "read_manifest json_load (disk w0) = Inr (v, n)"
    and st: "run sh json_load \<lparr>opt_makedist = False, opt_makezip = False, opt_makenothing = True\<rparr>
               args w0 = (None, ws)"
    and bw: "build_wanted op"
    and b: "build_phase sh n (select_packages args) ws = (Some e, w')"
  shows "run sh json_load op args w0 = (Some e, w')"
  unfolding run_phases [OF m, of sh op args] st using bw b by simp

text \<open>
  Claim C7, as the code has it. After the bundler and the copies of the root files,
  \<^verbatim>\<open>builddir\<close> calls \<^verbatim>\<open>os.unlink\<close> on \<^verbatim>\<open>version\<close> in the output directory without
  looking whether it is there. When it is a regular file it is removed and \<^verbatim>\<open>builddir\<close>
  returns normally. When it is absent, \<^verbatim>\<open>builddir\<close> raises: \<^verbatim>\<open>NotADirectoryError\<close> when
  a regular file stands on the way to it, \<^verbatim>\<open>FileNotFoundError\<close> otherwise, and the state is
  the one the copies left. Nothing catches the exception: in a run whose build gate is
  open, in which the platforms before this one were built, the run ends with that
  exception in that state, so the platforms after it are not built and nothing is
  archived.
\<close>

theorem builddir_unlinks_version:
  assumes "builddir_overlay sh dir pack w = (None, w1)"
  shows "(lookup (disk w1) (path_of (path_join dir ''version'')) = None \<longrightarrow>
            builddir sh dir pack w
              = (Some (if file_above (disk w1) (path_of (path_join dir ''version''))
                       then NotADirectoryError else FileNotFoundError), w1))
       \<and> ((\<exists>content. lookup (disk w1) (path_of (path_join dir ''version'')) = Some (File content)) \<longrightarrow>
            builddir sh dir pack w
              = (None, w1\<lparr>disk := AList.delete (path_of (path_join dir ''version'')) (disk w1)\<rparr>)
            \<and> lookup (disk (snd (builddir sh dir pack w))) (path_of (path_join dir ''version'')) = None)
       \<and> (lookup (disk w1) (path_of (path_join dir ''version'')) = None
            \<and> dir = dest_of n pack
            \<and> read_manifest json_load (disk w0) = Inr (v, n)
            \<and> run sh json_load \<lparr>opt_makedist = False, opt_makezip = False, opt_makenothing = True\<rparr>
                 args w0 = (None, ws)
            \<and> build_wanted op
            \<and> select_packages args = before @ pack # rest
            \<and> build_phase sh n before ws = (None, w) \<longrightarrow>
            run sh json_load op args w0
              = (Some (if file_above (disk w1) (path_of (path_join dir ''version''))
                       then NotADirectoryError else FileNotFoundError), w1))"
proof -
  let ?pv = "path_of (path_join dir ''version'')"
  let ?err = "if file_above (disk w1) ?pv then NotADirectoryError else FileNotFoundError"
  have b: "builddir sh dir pack w = on_disk (unlink ?pv) w1"
    using assms by (simp add: builddir_after_overlay)
  have ne: "?pv \<noteq> []" by (simp add: version_path)
  have absent: "builddir sh dir pack w = (Some ?err, w1)" if "lookup (disk w1) ?pv = None"
    using that by (simp add: b on_disk_def unlink_def enoent_def)
  have present: "builddir sh dir pack w = (None, w1\<lparr>disk := AList.delete ?pv (disk w1)\<rparr>)
      \<and> lookup (disk (snd (builddir sh dir pack w))) ?pv = None"
    if "\<exists>content. lookup (disk w1) ?pv = Some (File content)"
    using that ne by (auto simp: b on_disk_def unlink_def lookup_delete)
  have ends: "run sh json_load op args w0 = (Some ?err, w1)"
    if "lookup (disk w1) ?pv = None" "dir = dest_of n pack"
      "read_manifest json_load (disk w0) = Inr (v, n)"
      "run sh json_load \<lparr>opt_makedist = False, opt_makezip = False, opt_makenothing = True\<rparr>
         args w0 = (None, ws)"
      "build_wanted op" "select_packages args = before @ pack # rest"
      "build_phase sh n before ws = (None, w)"
  proof -
    have "builddir sh (dest_of n pack) pack w = (Some ?err, w1)"
      using absent [OF that(1)] that(2) by simp
    then have "build_phase sh n (select_packages args) ws = (Some ?err, w1)"
      unfolding that(6) by (rule build_phase_stops [OF that(7)])
    then show ?thesis
      by (rule run_build_stops [OF that(3) that(4) that(5)])
  qed
  show ?thesis using absent present ends by blast
qed

text \<open>
  Claim C7 as stated fails: when the bundler has left no \<^verbatim>\<open>version\<close> file in the output
  directory, \<^verbatim>\<open>builddir\<close> ends with \<^verbatim>\<open>FileNotFoundError\<close>.
\<close>

theorem builddir_missing_version_raises:
  "lookup (disk example_world_no_version) [''dist'', ''App-linux-x64'', ''version''] = None
   \<and> fst (builddir_overlay (\<lambda>cmd t. t) ''dist/App-linux-x64'' ''linux-x64'' example_world_no_version)
       = None
   \<and> fst (builddir (\<lambda>cmd t. t) ''dist/App-linux-x64'' ''linux-x64'' example_world_no_version)
       = Some FileNotFoundError"
  by code_simp

lemma example_overlay_present:
  "fst (builddir_overlay example_sh ''dist/App-linux-x64'' ''linux-x64'' example_world) = None
   \<and> lookup (disk (snd (builddir_overlay example_sh ''dist/App-linux-x64'' ''linux-x64'' example_world)))
         (path_of (path_join ''dist/App-linux-x64'' ''version'')) = Some (File ''1.3.0'')"
  by code_simp

lemma example_overlay_absent:
  "fst (builddir_overlay (\<lambda>cmd t. t) ''dist/App-linux-x64'' ''linux-x64'' example_world_no_version) = None
   \<and> lookup (disk (snd (builddir_overlay (\<lambda>cmd t. t) ''dist/App-linux-x64'' ''linux-x64''
                           example_world_no_version)))
         (path_of (path_join ''dist/App-linux-x64'' ''version'')) = None"
  by code_simp

lemma example_overlay_absent_kind:
  "\<not> file_above
       (disk (snd (builddir_overlay (\<lambda>cmd t. t) ''dist/App-linux-x64'' ''linux-x64''
                     example_world_no_version)))
       (path_of (path_join ''dist/App-linux-x64'' ''version''))"
  by code_simp

lemma example_staging_ok:
  "fst (run example_sh_no_version example_json_load
          \<lparr>opt_makedist = False, opt_makezip = False, opt_makenothing = True\<rparr> [''linux-x64'']
          example_world) = None"
  by code_simp

lemma example_run_overlay_absent:
  "fst (builddir_overlay example_sh_no_version ''dist/App-linux-x64'' ''linux-x64''
          (snd (run example_sh_no_version example_json_load
                  \<lparr>opt_makedist = False, opt_makezip = False, opt_makenothing = True\<rparr>
                  [''linux-x64''] example_world))) = None
   \<and> lookup (disk (snd (builddir_overlay example_sh_no_version ''dist/App-linux-x64'' ''linux-x64''
          (snd (run example_sh_no_version example_json_load
                  \<lparr>opt_makedist = False, opt_makezip = False, opt_makenothing = True\<rparr>
                  [''linux-x64''] example_world)))))
         (path_of (path_join ''dist/App-linux-x64'' ''version'')) = None
   \<and> \<not> file_above
       (disk (snd (builddir_overlay example_sh_no_version ''dist/App-linux-x64'' ''linux-x64''
          (snd (run example_sh_no_version example_json_load
                  \<lparr>opt_makedist = False, opt_makezip = False, opt_makenothing = True\<rparr>
                  [''linux-x64''] example_world)))))
       (path_of (path_join ''dist/App-linux-x64'' ''version''))"
  by code_simp

text \<open>
  The property C7 in the example tree: with the bundler that writes a \<^verbatim>\<open>version\<close> file
  the file is gone after \<^verbatim>\<open>builddir\<close>; with a bundler that writes none, \<^verbatim>\<open>builddir\<close>
  and the run with no option on \<^verbatim>\<open>linux-x64\<close> end with \<^verbatim>\<open>FileNotFoundError\<close>.
\<close>

theorem builddir_unlinks_version_witness:
  "fst (builddir_overlay example_sh ''dist/App-linux-x64'' ''linux-x64'' example_world) = None
   \<and> lookup (disk (snd (builddir_overlay example_sh ''dist/App-linux-x64'' ''linux-x64'' example_world)))
         (path_of (path_join ''dist/App-linux-x64'' ''version'')) = Some (File ''1.3.0'')
   \<and> fst (builddir example_sh ''dist/App-linux-x64'' ''linux-x64'' example_world) = None
   \<and> lookup (disk (snd (builddir example_sh ''dist/App-linux-x64'' ''linux-x64'' example_world)))
        (path_of (path_join ''dist/App-linux-x64'' ''version'')) = None
   \<and> fst (builddir_overlay (\<lambda>cmd t. t) ''dist/App-linux-x64'' ''linux-x64'' example_world_no_version)
       = None
   \<and> lookup (disk (snd (builddir_overlay (\<lambda>cmd t. t) ''dist/App-linux-x64'' ''linux-x64''
                           example_world_no_version)))
         (path_of (path_join ''dist/App-linux-x64'' ''version'')) = None
   \<and> builddir (\<lambda>cmd t. t) ''dist/App-linux-x64'' ''linux-x64'' example_world_no_version
       = (Some FileNotFoundError,
          snd (builddir_overlay (\<lambda>cmd t. t) ''dist/App-linux-x64'' ''linux-x64''
                 example_world_no_version))
   \<and> read_manifest example_json_load (disk example_world) = Inr (JStr ''1.0'', JStr ''App'')
   \<and> fst (run example_sh_no_version example_json_load
            \<lparr>opt_makedist = False, opt_makezip = False, opt_makenothing = True\<rparr> [''linux-x64'']
            example_world) = None
   \<and> build_wanted \<lparr>opt_makedist = False, opt_makezip = False, opt_makenothing = False\<rparr>
   \<and> select_packages [''linux-x64''] = [''linux-x64'']
   \<and> run example_sh_no_version example_json_load
        \<lparr>opt_makedist = False, opt_makezip = False, opt_makenothing = False\<rparr> [''linux-x64'']
        example_world
       = (Some FileNotFoundError,
          snd (builddir_overlay example_sh_no_version ''dist/App-linux-x64'' ''linux-x64''
                 (snd (run example_sh_no_version example_json_load
                         \<lparr>opt_makedist = False, opt_makezip = False, opt_makenothing = True\<rparr>
                         [''linux-x64''] example_world))))"
proof -
  let ?d = "''dist/App-linux-x64''" and ?p = "''linux-x64''"
  let ?pv = "path_of (path_join ?d ''version'')"
  let ?none = "\<lparr>opt_makedist = False, opt_makezip = False, opt_makenothing = True\<rparr>"
  let ?all = "\<lparr>opt_makedist = False, opt_makezip = False, opt_makenothing = False\<rparr>"
  let ?ws = "snd (run example_sh_no_version example_json_load ?none [?p] example_world)"
  let ?w1a = "snd (builddir_overlay example_sh ?d ?p example_world)"
  let ?w1b = "snd (builddir_overlay (\<lambda>cmd t. t) ?d ?p example_world_no_version)"
  let ?w1c = "snd (builddir_overlay example_sh_no_version ?d ?p ?ws)"
  have h1: "builddir_overlay example_sh ?d ?p example_world = (None, ?w1a)"
    by (simp add: prod_eq_iff example_overlay_present)
  have h2: "builddir_overlay (\<lambda>cmd t. t) ?d ?p example_world_no_version = (None, ?w1b)"
    by (simp add: prod_eq_iff example_overlay_absent)
  have h3: "builddir_overlay example_sh_no_version ?d ?p ?ws = (None, ?w1c)"
    by (simp add: prod_eq_iff example_run_overlay_absent)
  have present: "builddir example_sh ?d ?p example_world
        = (None, ?w1a\<lparr>disk := AList.delete ?pv (disk ?w1a)\<rparr>)
      \<and> lookup (disk (snd (builddir example_sh ?d ?p example_world))) ?pv = None"
    using builddir_unlinks_version [OF h1] example_overlay_present by blast
  have absent: "builddir (\<lambda>cmd t. t) ?d ?p example_world_no_version
        = (Some (if file_above (disk ?w1b) ?pv then NotADirectoryError else FileNotFoundError), ?w1b)"
    using builddir_unlinks_version [OF h2] example_overlay_absent by blast
  have st: "run example_sh_no_version example_json_load ?none [?p] example_world = (None, ?ws)"
    by (simp add: prod_eq_iff example_staging_ok)
  have dir: "?d = dest_of (JStr ''App'') ?p" by (simp add: dest_of_def)
  have bw: "build_wanted ?all" by (simp add: build_wanted_def doall_def)
  have sel: "select_packages [?p] = [] @ ?p # []"
    by (simp add: select_packages_def all_packages_def)
  have bp: "build_phase example_sh_no_version (JStr ''App'') [] ?ws = (None, ?ws)"
    by (simp add: build_phase_def)
  have ends: "run example_sh_no_version example_json_load ?all [?p] example_world
        = (Some (if file_above (disk ?w1c) ?pv then NotADirectoryError else FileNotFoundError), ?w1c)"
    using builddir_unlinks_version [OF h3, where n = "JStr ''App''" and json_load = example_json_load
        and ?w0.0 = example_world and v = "JStr ''1.0''" and ws = ?ws and op = ?all
        and args = "[?p]" and before = "[]" and rest = "[]"]
      example_run_overlay_absent dir example_manifest st bw sel bp
    by blast
  have 1: "fst (builddir example_sh ?d ?p example_world) = None"
    using present by simp
  have 2: "builddir (\<lambda>cmd t. t) ?d ?p example_world_no_version = (Some FileNotFoundError, ?w1b)"
    using absent example_overlay_absent_kind by simp
  have 3: "run example_sh_no_version example_json_load ?all [?p] example_world
        = (Some FileNotFoundError, ?w1c)"
    using ends example_run_overlay_absent by simp
  have sel': "select_packages [?p] = [?p]" using sel by simp
  show ?thesis
    using example_overlay_present example_overlay_absent example_manifest example_staging_ok
      present 1 2 3 bw sel'
    by blast
qed

section \<open>The file stager run twice\<close>

declare makedirs.simps [simp del]

lemma chg_refl: "chg M D t t"
  by (simp add: chg_def)

lemma chg_trans: "chg M D t t1 \<Longrightarrow> chg M' D' t1 t2 \<Longrightarrow> chg (M \<union> M') (D \<union> D') t t2"
  unfolding chg_def
  apply (intro allI)
  subgoal for p
    apply (erule allE [of _ p])
    apply (erule allE [of _ p])
    by (cases "lookup t p"; cases "lookup t1 p"; cases "lookup t2 p") auto
  done

lemma chg_mono: "chg M D t t' \<Longrightarrow> M \<subseteq> M' \<Longrightarrow> D \<subseteq> D' \<Longrightarrow> chg M' D' t t'"
  unfolding chg_def by blast

lemma chg_isdir: "chg M D t t' \<Longrightarrow> isdir t p \<Longrightarrow> isdir t' p"
  unfolding chg_def isdir_def by (metis option.inject option.distinct(1))

lemma chg_exists: "chg M D t t' \<Longrightarrow> lookup t p \<noteq> None \<Longrightarrow> lookup t' p \<noteq> None"
  unfolding chg_def by (metis option.distinct(1))

lemma chg_same: "chg M D t t' \<Longrightarrow> p \<notin> D \<Longrightarrow> lookup t p \<noteq> None \<Longrightarrow> lookup t' p = lookup t p"
  unfolding chg_def by metis

lemma lookup_update:
  "k \<noteq> [] \<Longrightarrow> lookup (AList.update k v t) p = (if p = k then Some v else lookup t p)"
  by (simp add: lookup_def update_conv')

lemma copyfile_ok:
  assumes "copyfile s d t = (None, t')"
  shows "s \<noteq> d \<and> d \<noteq> [] \<and> lookup t d \<noteq> Some Dir
         \<and> (\<exists>x. lookup t s = Some (File x) \<and> t' = AList.update d (File x) t)"
proof -
  have d: "d \<noteq> []" "lookup t d \<noteq> Some Dir"
    using assms by (auto simp: copyfile_def lookup_def split: option.splits node.splits if_splits)
  show ?thesis
    using assms d
    by (auto simp: copyfile_def split: option.splits node.splits if_splits)
qed

lemma copyfile_chg: "copyfile s d t = (None, t') \<Longrightarrow> chg M {d} t t'"
  using copyfile_ok [of s d t t'] by (auto simp: chg_def lookup_update split: if_splits)

lemma copyfile_noop:
  "s \<noteq> d \<Longrightarrow> lookup t s = Some (File x) \<Longrightarrow> lookup t d = Some (File x) \<Longrightarrow> copyfile s d t = (None, t)"
  by (auto simp: copyfile_def lookup_def update_triv split: if_splits)

lemma mkdir_ok:
  "mkdir p t = (None, t') \<Longrightarrow> p \<noteq> [] \<and> lookup t p = None \<and> t' = AList.update p Dir t"
  by (auto simp: mkdir_def lookup_def split: option.splits node.splits if_splits)

lemma mkdir_err: "mkdir p t = (Some e, t') \<Longrightarrow> t' = t"
  by (auto simp: mkdir_def split: option.splits node.splits if_splits)

lemma mkdir_chg: "chg {p} {} t (snd (mkdir p t))"
proof (cases "mkdir p t")
  case (Pair e t')
  show ?thesis
  proof (cases e)
    case None
    then show ?thesis using mkdir_ok [of p t t'] Pair by (auto simp: chg_def lookup_update)
  next
    case (Some a)
    then show ?thesis using mkdir_err [of p t a t'] Pair by (simp add: chg_refl)
  qed
qed

lemma makedirs_chg: "chg (set (prefixes p)) {} t (snd (makedirs p t))"
proof (induction p t rule: makedirs.induct)
  case (1 p t)
  show ?case
  proof (cases "p = []")
    case True
    then show ?thesis by (simp add: makedirs.simps chg_refl)
  next
    case False
    let ?par = "if butlast p \<noteq> [] \<and> lookup t (butlast p) = None
                 then makedirs (butlast p) t else (None, t)"
    have pre: "set (prefixes (butlast p)) \<subseteq> set (prefixes p)"
      by (metis False append_butlast_last_id in_set_prefixes prefix_order.dual_order.trans prefixI subsetI)
    have par: "chg (set (prefixes p)) {} t (snd ?par)"
    proof (cases "butlast p \<noteq> [] \<and> lookup t (butlast p) = None")
      case True
      then show ?thesis using 1 [OF False] pre by (auto intro: chg_mono)
    next
      case False
      then show ?thesis by (auto simp: chg_refl)
    qed
    obtain e1 t1 where p1: "?par = (e1, t1)" by (cases ?par)
    show ?thesis
    proof (cases e1)
      case (Some a)
      then show ?thesis using par p1 False by (subst makedirs.simps) simp
    next
      case None
      have m: "chg {p} {} t1 (snd (mkdir p t1))" by (rule mkdir_chg)
      have "snd (makedirs p t) = snd (mkdir p t1)"
        using p1 None False by (subst makedirs.simps) (auto split: prod.splits option.splits)
      moreover have "chg (set (prefixes p) \<union> {p}) ({} \<union> {}) t (snd (mkdir p t1))"
        using chg_trans [OF _ m] par p1 by simp
      ultimately show ?thesis by (simp add: insert_absorb)
    qed
  qed
qed

lemma chg_par_ok: "chg M D t t' \<Longrightarrow> par_ok t p \<Longrightarrow> par_ok t' p"
  unfolding par_ok_def using chg_exists by blast

lemma mkdir_isdir: "p \<noteq> [] \<Longrightarrow> mkdir p t = (None, t') \<Longrightarrow> isdir t' p"
  using mkdir_ok [of p t t'] by (auto simp: isdir_def lookup_update)

lemma makedirs_ok:
  "makedirs p t = (None, t') \<Longrightarrow> isdir t' p \<and> par_ok t' p"
proof (induction p t arbitrary: t' rule: makedirs.induct)
  case (1 p t)
  show ?case
  proof (cases "p = []")
    case True
    then show ?thesis by (simp add: isdir_def lookup_def par_ok_def)
  next
    case False
    let ?c = "butlast p \<noteq> [] \<and> lookup t (butlast p) = None"
    let ?par = "if ?c then makedirs (butlast p) t else (None, t)"
    obtain e1 t1 where p1: "?par = (e1, t1)" by (cases ?par)
    have e1: "e1 = None"
      using "1.prems" p1 False by (subst (asm) makedirs.simps) (auto split: option.splits)
    have fin: "(case mkdir p t1 of
              (Some e, t'') \<Rightarrow> (if isdir t'' p then (None, t'') else (Some e, t''))
            | (None, t'') \<Rightarrow> (None, t'')) = (None, t')"
      using "1.prems" p1 e1 False by (subst (asm) makedirs.simps) simp
    have par1: "par_ok t1 p"
    proof (cases ?c)
      case True
      then have "makedirs (butlast p) t = (None, t1)" using p1 e1 by simp
      then have "isdir t1 (butlast p)" using "1.IH" [OF False True] by simp
      then show ?thesis by (simp add: par_ok_def isdir_def)
    next
      case False
      then have "t1 = t" using p1 by (auto split: if_splits)
      then show ?thesis using False by (auto simp: par_ok_def)
    qed
    have c: "chg {p} {} t1 (snd (mkdir p t1))" by (rule mkdir_chg)
    show ?thesis
    proof (cases "mkdir p t1")
      case (Pair e2 t2)
      show ?thesis
      proof (cases e2)
        case None
        then have "t' = t2" using fin Pair by simp
        moreover have "isdir t2 p" using mkdir_isdir [OF False] Pair None by simp
        moreover have "par_ok t2 p" using chg_par_ok [OF c par1] Pair by simp
        ultimately show ?thesis by simp
      next
        case (Some a)
        then have "t' = t2 \<and> isdir t2 p" using fin Pair by (auto split: if_splits)
        moreover have "par_ok t2 p" using chg_par_ok [OF c par1] Pair by simp
        ultimately show ?thesis by simp
      qed
    qed
  qed
qed

lemma makedirs_noop: "isdir t p \<Longrightarrow> par_ok t p \<Longrightarrow> makedirs p t = (None, t)"
  by (subst makedirs.simps)
    (auto simp: par_ok_def mkdir_def isdir_def split: option.splits node.splits prod.splits)

lemma set_listdir: "set (listdir t p) = {c. lookup t (p @ [c]) \<noteq> None}"
proof -
  have "c \<in> set (listdir t p) \<longleftrightarrow> p @ [c] \<in> fst ` set t" for c
  proof
    assume "c \<in> set (listdir t p)"
    then obtain e where e: "e \<in> set t" "fst e \<noteq> []" "butlast (fst e) = p" "last (fst e) = c"
      by (auto simp: listdir_def)
    then have "fst e = p @ [c]" by (metis append_butlast_last_id)
    then show "p @ [c] \<in> fst ` set t" using e(1) by (metis imageI)
  next
    assume "p @ [c] \<in> fst ` set t"
    then obtain e where "e \<in> set t" "fst e = p @ [c]" by auto
    then show "c \<in> set (listdir t p)" by (force simp: listdir_def)
  qed
  then show ?thesis
    by (auto simp: lookup_def map_of_eq_None_iff)
qed

lemma install_entry_paths:
  assumes "filename \<noteq> []" "\<not> prefix ''/'' filename"
  shows "install_entry appdir filename t = entry_copy (path_of appdir) (path_of filename) t"
  using assms(1)
  unfolding install_entry_def entry_copy_def isdir_path_def Let_def path_of_join [OF assms(2)]
  by simp

lemma for_each_ok_rel:
  assumes refl: "\<And>s. R s s"
    and trans: "\<And>a b c. R a b \<Longrightarrow> R b c \<Longrightarrow> R a c"
    and step: "\<And>x s s'. x \<in> set xs \<Longrightarrow> body x s = (None, s') \<Longrightarrow> R s s'"
    and ok: "for_each body xs s = (None, s')"
  shows "R s s'"
  using step ok
proof (induction xs arbitrary: s)
  case Nil
  then show ?case by (simp add: refl)
next
  case (Cons x xs)
  obtain s1 where s1: "body x s = (None, s1)" "for_each body xs s1 = (None, s')"
    using Cons.prems(2) by (cases "body x s") (auto split: option.splits)
  have "R s s1" by (rule Cons.prems(1) [OF _ s1(1)]) simp
  moreover have "R s1 s'"
  proof (rule Cons.IH [OF _ s1(2)])
    show "R a b" if "y \<in> set xs" "body y a = (None, b)" for y a b
      by (rule Cons.prems(1) [OF _ that(2)]) (simp add: that(1))
  qed
  ultimately show ?case by (rule trans)
qed

lemma for_each_noop:
  "(\<And>x. x \<in> set xs \<Longrightarrow> body x s = (None, s)) \<Longrightarrow> for_each body xs s = (None, s)"
  by (induction xs) auto

lemma children_chg:
  assumes "for_each (\<lambda>c. copyfile (e @ [c]) (r @ e @ [c])) L s = (None, s')"
  shows "chg M (dst r e) s s'"
proof (rule for_each_ok_rel [where R = "chg M (dst r e)", OF _ _ _ assms])
  show "chg M (dst r e) a a" for a by (rule chg_refl)
  show "chg M (dst r e) a c" if "chg M (dst r e) a b" "chg M (dst r e) b c" for a b c
    using chg_trans [OF that] by simp
  show "chg M (dst r e) a b" if "copyfile (e @ [x]) (r @ e @ [x]) a = (None, b)" for x a b
    using copyfile_chg [OF that, of M] by (rule chg_mono) (auto simp: dst_def)
qed

lemma children_frame:
  assumes "for_each (\<lambda>c. copyfile (e @ [c]) (r @ e @ [c])) L s = (None, s')"
    and "\<forall>c \<in> set L. q \<noteq> r @ e @ [c]"
  shows "lookup s' q = lookup s q"
  using assms
proof (induction L arbitrary: s)
  case Nil
  then show ?case by simp
next
  case (Cons c L)
  obtain s1 where s1: "copyfile (e @ [c]) (r @ e @ [c]) s = (None, s1)"
      "for_each (\<lambda>c. copyfile (e @ [c]) (r @ e @ [c])) L s1 = (None, s')"
    using Cons.prems(1) by (cases "copyfile (e @ [c]) (r @ e @ [c]) s") (auto split: option.splits)
  have "lookup s1 q = lookup s q"
    using copyfile_ok [OF s1(1)] Cons.prems(2) by (auto simp: lookup_update)
  moreover have "lookup s' q = lookup s1 q"
    using Cons.IH [OF s1(2)] Cons.prems(2) by simp
  ultimately show ?case by simp
qed

lemma child_neq: "r \<noteq> [] \<Longrightarrow> e @ [c'] \<noteq> r @ e @ [c]"
  by (auto dest: arg_cong [of _ _ length])

lemma children_synced:
  assumes "r \<noteq> []"
    and "for_each (\<lambda>c. copyfile (e @ [c]) (r @ e @ [c])) L s = (None, s')"
  shows "\<forall>c \<in> set L. \<exists>x. lookup s (e @ [c]) = Some (File x) \<and> lookup s' (r @ e @ [c]) = Some (File x)"
  using assms(2)
proof (induction L arbitrary: s)
  case Nil
  then show ?case by simp
next
  case (Cons c L)
  obtain s1 where s1: "copyfile (e @ [c]) (r @ e @ [c]) s = (None, s1)"
      "for_each (\<lambda>c. copyfile (e @ [c]) (r @ e @ [c])) L s1 = (None, s')"
    using Cons.prems(1) by (cases "copyfile (e @ [c]) (r @ e @ [c]) s") (auto split: option.splits)
  obtain x where x: "lookup s (e @ [c]) = Some (File x)" "s1 = AList.update (r @ e @ [c]) (File x) s"
    using copyfile_ok [OF s1(1)] by auto
  have src: "lookup s1 (e @ [c2]) = lookup s (e @ [c2])" for c2
    using x(2) child_neq [OF assms(1), of e c2 c] assms(1) by (simp add: lookup_update)
  have rest: "\<forall>c2 \<in> set L. \<exists>y. lookup s (e @ [c2]) = Some (File y) \<and> lookup s' (r @ e @ [c2]) = Some (File y)"
    using Cons.IH [OF s1(2)] src by simp
  have "\<exists>y. lookup s (e @ [c]) = Some (File y) \<and> lookup s' (r @ e @ [c]) = Some (File y)"
  proof (cases "c \<in> set L")
    case True
    then show ?thesis using rest by blast
  next
    case False
    then have "lookup s' (r @ e @ [c]) = lookup s1 (r @ e @ [c])"
      using children_frame [OF s1(2), of "r @ e @ [c]"] by auto
    then show ?thesis using x by (simp add: lookup_update)
  qed
  then show ?case using rest by simp
qed

lemma entry_copy_cases:
  assumes "entry_copy r e t = (None, t')"
  shows "(\<not> isdir t e \<and> copyfile e (r @ e) t = (None, t'))
       \<or> (isdir t e \<and> (\<exists>t1. makedirs (r @ e) t = (None, t1)
             \<and> for_each (\<lambda>c. copyfile (e @ [c]) (r @ e @ [c])) (listdir t1 e) t1 = (None, t')))"
proof (cases "isdir t e")
  case False
  then show ?thesis using assms by (simp add: entry_copy_def)
next
  case True
  obtain e1 t1 where m: "makedirs (r @ e) t = (e1, t1)" by (cases "makedirs (r @ e) t")
  have "e1 = None" using assms True m by (auto simp: entry_copy_def split: option.splits)
  moreover have "for_each (\<lambda>c. copyfile (e @ [c]) (r @ e @ [c])) (listdir t1 e) t1 = (None, t')"
    using assms True m \<open>e1 = None\<close>
    by (cases "for_each (\<lambda>c. copyfile (e @ [c]) (r @ e @ [c])) (listdir t1 e) t1")
      (auto simp: entry_copy_def split: option.splits)
  ultimately show ?thesis using True m by auto
qed

lemma entry_copy_chg:
  assumes "entry_copy r e t = (None, t')"
  shows "chg (set (prefixes (r @ e))) (dst r e) t t'"
  using entry_copy_cases [OF assms]
proof (elim disjE conjE exE)
  assume "copyfile e (r @ e) t = (None, t')"
  then show ?thesis
    using copyfile_chg [of e "r @ e" t t' "set (prefixes (r @ e))"]
    by (auto intro: chg_mono simp: dst_def)
next
  fix t1
  assume m: "makedirs (r @ e) t = (None, t1)"
    and l: "for_each (\<lambda>c. copyfile (e @ [c]) (r @ e @ [c])) (listdir t1 e) t1 = (None, t')"
  have "chg (set (prefixes (r @ e))) {} t t1"
    using makedirs_chg [of "r @ e" t] m by simp
  from chg_trans [OF this children_chg [OF l, of "{}"]]
  show ?thesis by simp
qed

lemma entry_copy_good:
  assumes "entry_copy r e t = (None, t')"
  shows "good t' r e"
  using entry_copy_cases [OF assms]
proof (elim disjE conjE exE)
  assume nd: "\<not> isdir t e" and c: "copyfile e (r @ e) t = (None, t')"
  obtain x where x: "e \<noteq> r @ e" "r @ e \<noteq> []" "lookup t e = Some (File x)"
      "t' = AList.update (r @ e) (File x) t"
    using copyfile_ok [OF c] by auto
  have "lookup t' e = Some (File x)" "lookup t' (r @ e) = Some (File x)"
    using x by (simp_all add: lookup_update)
  then show ?thesis using x(1) by (simp add: good_def synced_def isdir_def)
next
  fix t1
  assume d: "isdir t e" and m: "makedirs (r @ e) t = (None, t1)"
    and l: "for_each (\<lambda>c. copyfile (e @ [c]) (r @ e @ [c])) (listdir t1 e) t1 = (None, t')"
  have c1: "chg (set (prefixes (r @ e))) {} t t1" using makedirs_chg [of "r @ e" t] m by simp
  have c2: "chg {} (dst r e) t1 t'" by (rule children_chg [OF l])
  have d': "isdir t' e" using chg_isdir [OF c2] chg_isdir [OF c1 d] by simp
  have rd: "isdir t' (r @ e)" "par_ok t' (r @ e)"
    using makedirs_ok [OF m] chg_isdir [OF c2] chg_par_ok [OF c2] by auto
  have kids: "\<forall>c \<in> set (listdir t' e). synced t' (e @ [c]) (r @ e @ [c])"
  proof (cases "listdir t1 e = []")
    case True
    then show ?thesis using l by simp
  next
    case False
    then obtain c0 L where L: "listdir t1 e = c0 # L" by (cases "listdir t1 e") auto
    obtain s1 where "copyfile (e @ [c0]) (r @ e @ [c0]) t1 = (None, s1)"
      using l unfolding L
      by (cases "copyfile (e @ [c0]) (r @ e @ [c0]) t1") (auto split: option.splits)
    then have "e @ [c0] \<noteq> r @ e @ [c0]" using copyfile_ok by blast
    then have r: "r \<noteq> []" by auto
    have src: "lookup t' (e @ [c]) = lookup t1 (e @ [c])" for c
      using children_frame [OF l, of "e @ [c]"] child_neq [OF r] by blast
    then have same: "set (listdir t' e) = set (listdir t1 e)" by (simp add: set_listdir)
    show ?thesis
      using children_synced [OF r l] src same r
      by (auto simp: synced_def)
  qed
  show ?thesis using d' rd kids by (simp add: good_def)
qed

lemma good_noop:
  assumes "good F r e"
  shows "entry_copy r e F = (None, F)"
proof (cases "isdir F e")
  case False
  then have "synced F e (r @ e)" using assms by (simp add: good_def)
  then show ?thesis using False by (auto simp: entry_copy_def synced_def intro: copyfile_noop)
next
  case True
  then have g: "isdir F (r @ e)" "par_ok F (r @ e)"
      "\<forall>c \<in> set (listdir F e). synced F (e @ [c]) (r @ e @ [c])"
    using assms by (simp_all add: good_def)
  have "for_each (\<lambda>c. copyfile (e @ [c]) (r @ e @ [c])) (listdir F e) F = (None, F)"
    using g(3) by (intro for_each_noop) (auto simp: synced_def intro: copyfile_noop)
  then show ?thesis using True makedirs_noop [OF g(1,2)] by (simp add: entry_copy_def)
qed

lemma good_persist:
  assumes g: "good t1 r e"
    and c: "chg M D t1 F"
    and disj: "D \<inter> dst r e = {}"
    and same: "\<forall>p. prefix e p \<longrightarrow> lookup F p = lookup t1 p"
  shows "good F r e"
proof -
  have e: "lookup F e = lookup t1 e" using same by simp
  have kid: "lookup F (e @ [c]) = lookup t1 (e @ [c])" for c using same by simp
  have ls: "set (listdir F e) = set (listdir t1 e)" by (simp add: set_listdir kid)
  have keep: "lookup F p = lookup t1 p" if "p \<in> dst r e" "lookup t1 p \<noteq> None" for p
    using chg_same [OF c _ that(2)] that(1) disj by auto
  show ?thesis
  proof (cases "isdir t1 e")
    case True
    then have g1: "isdir t1 (r @ e)" "par_ok t1 (r @ e)"
        "\<forall>c \<in> set (listdir t1 e). synced t1 (e @ [c]) (r @ e @ [c])"
      using g by (simp_all add: good_def)
    have "synced F (e @ [c]) (r @ e @ [c])" if "c \<in> set (listdir t1 e)" for c
    proof -
      have s: "synced t1 (e @ [c]) (r @ e @ [c])" using g1(3) that by simp
      then have "lookup F (r @ e @ [c]) = lookup t1 (r @ e @ [c])"
        by (intro keep) (auto simp: dst_def synced_def)
      then show ?thesis using s kid by (simp add: synced_def)
    qed
    then show ?thesis
      using True e ls chg_isdir [OF c g1(1)] chg_par_ok [OF c g1(2)]
      by (simp add: good_def isdir_def)
  next
    case False
    then have s: "synced t1 e (r @ e)" using g by (simp add: good_def)
    then have "lookup F (r @ e) = lookup t1 (r @ e)"
      by (intro keep) (auto simp: dst_def synced_def)
    then show ?thesis using False e s by (simp add: good_def isdir_def synced_def)
  qed
qed

lemma stage_chg:
  assumes "for_each (entry_copy r) es t = (None, F)"
  shows "chg (mks r es) (dsts r es) t F"
proof (rule for_each_ok_rel [where R = "chg (mks r es) (dsts r es)", OF _ _ _ assms])
  show "chg (mks r es) (dsts r es) a a" for a by (rule chg_refl)
  show "chg (mks r es) (dsts r es) a c"
    if "chg (mks r es) (dsts r es) a b" "chg (mks r es) (dsts r es) b c" for a b c
    using chg_trans [OF that] by simp
  show "chg (mks r es) (dsts r es) a b" if "e \<in> set es" "entry_copy r e a = (None, b)" for e a b
    by (rule chg_mono [OF entry_copy_chg [OF that(2)]]) (use that(1) in \<open>auto simp: mks_def dsts_def\<close>)
qed

lemma dst_disjoint:
  assumes "pfree (e # es)" "e \<notin> set es"
  shows "dsts r es \<inter> dst r e = {}"
proof -
  have "False" if "e' \<in> set es" "p \<in> dst r e'" "p \<in> dst r e" for e' p
  proof -
    have ne: "e' \<noteq> e" using that(1) assms(2) by auto
    have np: "\<not> prefix e e'" "\<not> prefix e' e"
      using assms(1) that(1) ne by (auto simp: pfree_def)
    show False using that(2,3) np ne by (auto simp: dst_def prefix_def)
  qed
  then show ?thesis by (auto simp: dsts_def)
qed

lemma pfree_tl: "pfree (e # es) \<Longrightarrow> pfree es"
  by (simp add: pfree_def)

lemma stage_good:
  assumes "for_each (entry_copy r) es t = (None, F)"
    and "distinct es" and "pfree es"
    and "\<forall>e \<in> set es. \<forall>p. prefix e p \<longrightarrow> lookup F p = lookup t p"
  shows "\<forall>e \<in> set es. good F r e"
  using assms
proof (induction es arbitrary: t)
  case Nil
  then show ?case by simp
next
  case (Cons e es)
  obtain t1 where t1: "entry_copy r e t = (None, t1)" "for_each (entry_copy r) es t1 = (None, F)"
    using Cons.prems(1) by (cases "entry_copy r e t") (auto split: option.splits)
  have c1: "chg (set (prefixes (r @ e))) (dst r e) t t1" by (rule entry_copy_chg [OF t1(1)])
  have c2: "chg (mks r es) (dsts r es) t1 F" by (rule stage_chg [OF t1(2)])
  have disj: "dsts r es \<inter> dst r e = {}"
    using dst_disjoint [OF Cons.prems(3)] Cons.prems(2) by simp
  have same1: "lookup t1 p = lookup t p" if "e0 \<in> set (e # es)" "prefix e0 p" for e0 p
  proof -
    have H: "lookup F p = lookup t p" using Cons.prems(4) that by blast
    have "lookup t1 p = lookup t p
        \<or> (lookup t p = None \<and> lookup t1 p = Some Dir)
        \<or> (p \<in> dst r e \<and> (\<exists>y. lookup t1 p = Some (File y)))"
      using c1 [unfolded chg_def, rule_format, of p] by auto
    then show ?thesis
    proof (elim disjE conjE exE)
      assume "lookup t1 p = lookup t p"
      then show ?thesis .
    next
      assume 2: "lookup t p = None" "lookup t1 p = Some Dir"
      then have "isdir F p" using chg_isdir [OF c2, of p] by (simp add: isdir_def)
      then show ?thesis using H 2 by (simp add: isdir_def)
    next
      fix y
      assume 3: "p \<in> dst r e" "lookup t1 p = Some (File y)"
      then have "p \<notin> dsts r es" using disj by auto
      then have "lookup F p = lookup t1 p" using chg_same [OF c2] 3 by simp
      then show ?thesis using H by simp
    qed
  qed
  have same2: "\<forall>e0 \<in> set (e # es). \<forall>p. prefix e0 p \<longrightarrow> lookup F p = lookup t1 p"
    using same1 Cons.prems(4) by auto
  have rest: "\<forall>e' \<in> set es. good F r e'"
    using Cons.IH [OF t1(2)] Cons.prems(2) pfree_tl [OF Cons.prems(3)] same2 by auto
  have "good F r e"
    using good_persist [OF entry_copy_good [OF t1(1)] c2 disj] same2 by auto
  then show ?case using rest by simp
qed

lemma for_each_map: "for_each body (map g xs) s = for_each (\<lambda>x. body (g x)) xs s"
  by (induction xs arbitrary: s) (auto split: prod.splits option.splits)

lemma for_each_cong_set:
  "(\<And>x s. x \<in> set xs \<Longrightarrow> f x s = g x s) \<Longrightarrow> for_each f xs s = for_each g xs s"
  by (induction xs arbitrary: s) (auto split: prod.splits option.splits)

lemma files_wellformed: "f \<in> set files \<Longrightarrow> f \<noteq> [] \<and> \<not> prefix ''/'' f"
  by (auto simp: files_def)

lemma files_loop_paths:
  "for_each (install_entry appdir) files t
     = for_each (entry_copy (path_of appdir)) (map path_of files) t"
  unfolding for_each_map
  by (rule for_each_cong_set) (simp add: install_entry_paths files_wellformed)

lemma files_paths:
  "map path_of files =
     [[''package.json''], [''main.js''], [''apphooks.js''], [''play.html''], [''prefs.html''],
      [''prefs.js''], [''about.html''], [''if-card.html''], [''fonts.css''], [''el-glkote.css''],
      [''icon-128.png''], [''docicon.ico''], [''quixe'', ''lib'', ''elkote.min.js''],
      [''quixe'', ''lib'', ''jquery-1.11.2.min.js''], [''quixe'', ''lib'', ''quixe.min.js''],
      [''quixe'', ''media'', ''waiting.gif''], [''font'']]"
  by (simp add: files_def path_of_def)

lemma files_distinct: "distinct (map path_of files)"
  unfolding files_paths by simp

lemma files_pfree: "pfree (map path_of files)"
  unfolding files_paths pfree_def by simp

lemma seq_on_disk:
  "seq (map on_disk fs) w = (case seq fs (disk w) of (e, t) \<Rightarrow> (e, w\<lparr>disk := t\<rparr>))"
proof (induction fs arbitrary: w)
  case Nil
  then show ?case by simp
next
  case (Cons f fs)
  show ?case
  proof (cases "f (disk w)")
    case (Pair e1 t1)
    show ?thesis
    proof (cases e1)
      case None
      then show ?thesis using Pair Cons [of "w\<lparr>disk := t1\<rparr>"]
        by (simp add: on_disk_def split: prod.splits)
    next
      case (Some a)
      then show ?thesis using Pair by (simp add: on_disk_def)
    qed
  qed
qed

lemma install_eq:
  "install resourcedir w =
     (if \<not> isdir_path (disk w) resourcedir
      then (Some (Exception (''path does not exist: '' @ resourcedir)), w)
      else (case install_disk resourcedir (disk w) of
              (e, t) \<Rightarrow> (e, w\<lparr>out := out w @ [''Installing to: '' @ resourcedir], disk := t\<rparr>)))"
proof -
  let ?steps = "[makedirs (path_of resourcedir),
          makedirs (path_of (path_join resourcedir ''quixe'')),
          makedirs (path_of (path_join (path_join resourcedir ''quixe'') ''lib'')),
          makedirs (path_of (path_join (path_join resourcedir ''quixe'') ''media'')),
          for_each (install_entry resourcedir) files]"
  let ?w = "w\<lparr>out := out w @ [''Installing to: '' @ resourcedir]\<rparr>"
  have "install resourcedir w = seq (map on_disk ?steps) ?w" if "isdir_path (disk w) resourcedir"
    using that by (simp add: install_def Let_def py_print_def)
  then show ?thesis
    unfolding seq_on_disk install_disk_def
    by (auto simp: install_def split: prod.splits)
qed

lemma seq_ok_Cons:
  "seq (f # fs) s = (None, s') \<longleftrightarrow> (\<exists>s1. f s = (None, s1) \<and> seq fs s1 = (None, s'))"
  by (cases "f s") (auto split: option.splits)

lemma quixe_paths:
  "path_of (path_join appdir ''quixe'') = path_of appdir @ [''quixe'']"
  "path_of (path_join (path_join appdir ''quixe'') ''lib'') = path_of appdir @ [''quixe'', ''lib'']"
  "path_of (path_join (path_join appdir ''quixe'') ''media'') = path_of appdir @ [''quixe'', ''media'']"
  by (simp_all add: path_of_join) (simp_all add: path_of_def)

lemma install_disk_steps:
  assumes "install_disk appdir t = (None, F)"
  obtains ta tb tc t0 where
    "makedirs (path_of appdir) t = (None, ta)"
    "makedirs (path_of appdir @ [''quixe'']) ta = (None, tb)"
    "makedirs (path_of appdir @ [''quixe'', ''lib'']) tb = (None, tc)"
    "makedirs (path_of appdir @ [''quixe'', ''media'']) tc = (None, t0)"
    "for_each (entry_copy (path_of appdir)) (map path_of files) t0 = (None, F)"
proof -
  from assms obtain ta tb tc t0 s5 where
    "makedirs (path_of appdir) t = (None, ta)"
    "makedirs (path_of appdir @ [''quixe'']) ta = (None, tb)"
    "makedirs (path_of appdir @ [''quixe'', ''lib'']) tb = (None, tc)"
    "makedirs (path_of appdir @ [''quixe'', ''media'']) tc = (None, t0)"
    "for_each (entry_copy (path_of appdir)) (map path_of files) t0 = (None, s5)"
    "seq [] s5 = (None, F)"
    unfolding install_disk_def seq_ok_Cons quixe_paths files_loop_paths by blast
  then show ?thesis using that by simp
qed

lemma chg_any: "chg M D t t' \<Longrightarrow> chg UNIV UNIV t t'"
  by (rule chg_mono) auto

lemma chg_any_trans: "chg UNIV UNIV a b \<Longrightarrow> chg UNIV UNIV b c \<Longrightarrow> chg UNIV UNIV a c"
  using chg_trans [of UNIV UNIV a b UNIV UNIV c] by simp

lemma makedirs_chg_ok: "makedirs p t = (None, t') \<Longrightarrow> chg (set (prefixes p)) {} t t'"
  using makedirs_chg [of p t] by simp

lemma install_disk_idem:
  assumes run: "install_disk appdir t = (None, F)"
    and src: "\<forall>e \<in> set (map path_of files). \<forall>p. prefix e p \<longrightarrow> lookup F p = lookup t p"
  shows "install_disk appdir F = (None, F)"
proof -
  let ?r = "path_of appdir"
  let ?E = "map path_of files"
  from run obtain ta tb tc t0 where st:
    "makedirs ?r t = (None, ta)"
    "makedirs (?r @ [''quixe'']) ta = (None, tb)"
    "makedirs (?r @ [''quixe'', ''lib'']) tb = (None, tc)"
    "makedirs (?r @ [''quixe'', ''media'']) tc = (None, t0)"
    "for_each (entry_copy ?r) ?E t0 = (None, F)"
    by (rule install_disk_steps)
  have ca: "chg UNIV {} t ta" using makedirs_chg_ok [OF st(1)] by (rule chg_mono) auto
  have cb: "chg UNIV {} ta tb" using makedirs_chg_ok [OF st(2)] by (rule chg_mono) auto
  have cc: "chg UNIV {} tb tc" using makedirs_chg_ok [OF st(3)] by (rule chg_mono) auto
  have cd: "chg UNIV {} tc t0" using makedirs_chg_ok [OF st(4)] by (rule chg_mono) auto
  have cs: "chg (mks ?r ?E) (dsts ?r ?E) t0 F" by (rule stage_chg [OF st(5)])
  have c0: "chg UNIV {} t t0"
    using chg_trans [OF chg_trans [OF chg_trans [OF ca cb] cc] cd] by simp
  have bF: "chg UNIV UNIV tb F"
    using chg_any_trans [OF chg_any [OF cc] chg_any_trans [OF chg_any [OF cd] chg_any [OF cs]]] .
  have aF: "chg UNIV UNIV ta F" using chg_any_trans [OF chg_any [OF cb] bF] .
  have cF: "chg UNIV UNIV tc F" using chg_any_trans [OF chg_any [OF cd] chg_any [OF cs]] .
  have same: "\<forall>e \<in> set ?E. \<forall>p. prefix e p \<longrightarrow> lookup F p = lookup t0 p"
  proof (intro ballI allI impI)
    fix e p
    assume e: "e \<in> set ?E" and p: "prefix e p"
    have H: "lookup F p = lookup t p" using src e p by blast
    have "lookup t0 p = lookup t p \<or> (lookup t p = None \<and> lookup t0 p = Some Dir)"
      using c0 [unfolded chg_def, rule_format, of p] by auto
    then show "lookup F p = lookup t0 p"
    proof
      assume "lookup t0 p = lookup t p"
      then show ?thesis using H by simp
    next
      assume 2: "lookup t p = None \<and> lookup t0 p = Some Dir"
      then have "isdir F p" using chg_isdir [OF cs, of p] by (simp add: isdir_def)
      then show ?thesis using H 2 by (simp add: isdir_def)
    qed
  qed
  have good: "\<forall>e \<in> set ?E. good F ?r e"
    by (rule stage_good [OF st(5) files_distinct files_pfree same])
  have loop: "for_each (entry_copy ?r) ?E F = (None, F)"
    using good by (intro for_each_noop good_noop) auto
  have m1: "makedirs ?r F = (None, F)"
    using makedirs_ok [OF st(1)] chg_isdir [OF aF] chg_par_ok [OF aF] by (intro makedirs_noop) auto
  have m2: "makedirs (?r @ [''quixe'']) F = (None, F)"
    using makedirs_ok [OF st(2)] chg_isdir [OF bF] chg_par_ok [OF bF] by (intro makedirs_noop) auto
  have m3: "makedirs (?r @ [''quixe'', ''lib'']) F = (None, F)"
    using makedirs_ok [OF st(3)] chg_isdir [OF cF] chg_par_ok [OF cF] by (intro makedirs_noop) auto
  have m4: "makedirs (?r @ [''quixe'', ''media'']) F = (None, F)"
    using makedirs_ok [OF st(4)] chg_isdir [OF cs] chg_par_ok [OF cs] by (intro makedirs_noop) auto
  show ?thesis
    unfolding install_disk_def quixe_paths files_loop_paths
    by (simp add: m1 m2 m3 m4 loop)
qed

text \<open>
  Claim C10. A run of \<^verbatim>\<open>install\<close> has ended without an exception, and the source tree
  (every location at or below an entry of \<open>files\<close>) is after it as it was before it. Then a
  second run of \<^verbatim>\<open>install\<close> against the same destination root ends without an
  exception as well, and the state it returns is the one the first run left, but for the
  line it prints: the disk, and so the staging tree, is the same after two runs as after
  one.
\<close>

theorem install_idempotent:
  assumes "install resourcedir w = (None, w1)"
    and "\<forall>f \<in> set files. \<forall>p. prefix (path_of f) p \<longrightarrow> lookup (disk w1) p = lookup (disk w) p"
  shows "install resourcedir w1
     = (None, w1\<lparr>out := out w1 @ [''Installing to: '' @ resourcedir]\<rparr>)"
proof -
  have d: "isdir_path (disk w) resourcedir"
    using assms(1) by (auto simp: install_eq split: if_splits)
  obtain F where F: "install_disk resourcedir (disk w) = (None, F)"
    and w1: "w1 = w\<lparr>out := out w @ [''Installing to: '' @ resourcedir], disk := F\<rparr>"
    using assms(1) d by (auto simp: install_eq split: prod.splits)
  have dF: "disk w1 = F" using w1 by simp
  have src: "\<forall>e \<in> set (map path_of files). \<forall>p. prefix e p \<longrightarrow> lookup F p = lookup (disk w) p"
    using assms(2) dF by auto
  have idem: "install_disk resourcedir F = (None, F)"
    by (rule install_disk_idem [OF F src])
  from F obtain ta where ta: "makedirs (path_of resourcedir) (disk w) = (None, ta)"
    by (rule install_disk_steps)
  have "chg UNIV UNIV ta F"
  proof -
    from F obtain ta' tb tc t0 where st:
      "makedirs (path_of resourcedir) (disk w) = (None, ta')"
      "makedirs (path_of resourcedir @ [''quixe'']) ta' = (None, tb)"
      "makedirs (path_of resourcedir @ [''quixe'', ''lib'']) tb = (None, tc)"
      "makedirs (path_of resourcedir @ [''quixe'', ''media'']) tc = (None, t0)"
      "for_each (entry_copy (path_of resourcedir)) (map path_of files) t0 = (None, F)"
      by (rule install_disk_steps)
    have "ta' = ta" using st(1) ta by simp
    then show ?thesis
      using chg_any_trans [OF chg_any [OF makedirs_chg_ok [OF st(2)]]
          chg_any_trans [OF chg_any [OF makedirs_chg_ok [OF st(3)]]
            chg_any_trans [OF chg_any [OF makedirs_chg_ok [OF st(4)]]
              chg_any [OF stage_chg [OF st(5)]]]]]
      by simp
  qed
  then have "isdir F (path_of resourcedir)"
    using makedirs_ok [OF ta] chg_isdir by blast
  then have d1: "isdir_path (disk w1) resourcedir"
    using d dF by (simp add: isdir_path_def)
  show ?thesis
    using d1 idem dF by (simp add: install_eq)
qed

lemma below_or_above:
  "p \<in> set (prefixes (r @ x)) \<Longrightarrow> prefix p r \<or> prefix r p"
  using prefix_same_cases [of p "r @ x" r] by (simp add: in_set_prefixes)

lemma install_disk_frame:
  assumes run: "install_disk appdir t = (None, F)"
    and diff: "lookup F p \<noteq> lookup t p"
  shows "prefix p (path_of appdir) \<or> prefix (path_of appdir) p"
proof -
  let ?r = "path_of appdir"
  let ?E = "map path_of files"
  from run obtain ta tb tc t0 where st:
    "makedirs ?r t = (None, ta)"
    "makedirs (?r @ [''quixe'']) ta = (None, tb)"
    "makedirs (?r @ [''quixe'', ''lib'']) tb = (None, tc)"
    "makedirs (?r @ [''quixe'', ''media'']) tc = (None, t0)"
    "for_each (entry_copy ?r) ?E t0 = (None, F)"
    by (rule install_disk_steps)
  let ?M = "set (prefixes ?r) \<union> set (prefixes (?r @ [''quixe'']))
      \<union> set (prefixes (?r @ [''quixe'', ''lib''])) \<union> set (prefixes (?r @ [''quixe'', ''media'']))
      \<union> mks ?r ?E"
  have "chg ?M (dsts ?r ?E) t F"
    using chg_trans [OF chg_trans [OF chg_trans [OF chg_trans [OF makedirs_chg_ok [OF st(1)]
      makedirs_chg_ok [OF st(2)]] makedirs_chg_ok [OF st(3)]] makedirs_chg_ok [OF st(4)]]
      stage_chg [OF st(5)]]
    by simp
  then have "p \<in> ?M \<or> p \<in> dsts ?r ?E"
    using diff unfolding chg_def by blast
  then show ?thesis
  proof
    assume "p \<in> ?M"
    then show ?thesis
      using below_or_above [of p ?r] below_or_above [of p ?r "[]"]
      by (auto simp: mks_def)
  next
    assume "p \<in> dsts ?r ?E"
    then show ?thesis by (auto simp: dsts_def dst_def)
  qed
qed

lemma install_frame:
  assumes "install resourcedir w = (None, w1)"
    and "lookup (disk w1) p \<noteq> lookup (disk w) p"
  shows "prefix p (path_of resourcedir) \<or> prefix (path_of resourcedir) p"
proof -
  obtain F where F: "install_disk resourcedir (disk w) = (None, F)" and "disk w1 = F"
    using assms(1) by (auto simp: install_eq split: prod.splits if_splits)
  then show ?thesis using install_disk_frame [OF F] assms(2) by simp
qed

lemma example_install_ok: "fst (install ''tempapp'' example_world_tempapp) = None"
  by code_simp

text \<open>
  The hypotheses of C10 hold for staging into \<^verbatim>\<open>tempapp\<close> in the example tree: the run
  succeeds, and it changes nothing outside the staging directory.
\<close>

theorem install_idempotent_witness:
  "install ''tempapp'' example_world_tempapp
     = (None, snd (install ''tempapp'' example_world_tempapp))
   \<and> list_all (\<lambda>f. \<forall>p. prefix (path_of f) p \<longrightarrow>
          lookup (disk (snd (install ''tempapp'' example_world_tempapp))) p
            = lookup (disk example_world_tempapp) p) files
   \<and> install ''tempapp'' (snd (install ''tempapp'' example_world_tempapp))
     = (None, (snd (install ''tempapp'' example_world_tempapp))
               \<lparr>out := out (snd (install ''tempapp'' example_world_tempapp))
                         @ [''Installing to: tempapp'']\<rparr>)"
proof -
  let ?w1 = "snd (install ''tempapp'' example_world_tempapp)"
  have ok: "install ''tempapp'' example_world_tempapp = (None, ?w1)"
    using example_install_ok by (metis prod.collapse)
  have src: "\<forall>f \<in> set files. \<forall>p. prefix (path_of f) p \<longrightarrow>
      lookup (disk ?w1) p = lookup (disk example_world_tempapp) p"
  proof (intro ballI allI impI, rule ccontr)
    fix f p
    assume f: "f \<in> set files" and p: "prefix (path_of f) p"
      and "lookup (disk ?w1) p \<noteq> lookup (disk example_world_tempapp) p"
    then have "prefix p (path_of ''tempapp'') \<or> prefix (path_of ''tempapp'') p"
      using install_frame [OF ok] by blast
    moreover have "path_of ''tempapp'' = [''tempapp'']" by (simp add: path_of_def)
    moreover have "path_of f \<in> set (map path_of files)" using f by simp
    ultimately show False
      using p unfolding files_paths by (auto simp: prefix_def)
  qed
  show ?thesis
    using install_idempotent [OF ok src] ok src by (simp add: list_all_iff)
qed

end
